theory Spec2Isabelle
  imports Main "HOL-Library.Word" "HOL-Library.Monad_Syntax"
begin

unbundle bit_operations_syntax

section \<open>The HCI core of net/bluetooth/hci\_core.c\<close>

text \<open>
  A shallow embedding of \<^verbatim>\<open>src/net/bluetooth/hci_core.c\<close>. Every C function that the
  properties below talk about is a HOL function of the same name on an explicit state.

  Conventions.
  \<^item> \<^verbatim>\<open>uint8_t\<close>, \<^verbatim>\<open>uint16_t\<close> are \<open>8 word\<close>, \<open>16 word\<close>; \<^verbatim>\<open>size_t\<close> and pointer
    arithmetic are 32-bit words (the targets of this kernel are 32-bit).
  \<^item> The headers \<^verbatim>\<open>bluetooth/bluetooth.h\<close> and \<^verbatim>\<open>bluetooth/hci.h\<close> are not among
    the sources. The integer type of \<^verbatim>\<open>bt_buf.len\<close> is therefore left open: it is an
    unsigned integer of any width \<open>'l\<close>. The size \<^verbatim>\<open>BT_BUF_MAX_DATA\<close> of the array
    \<^verbatim>\<open>bt_buf.buf\<close> is the length of the byte list that models the array.
  \<^item> A pointer into \<^verbatim>\<open>bt_buf.buf\<close> is its offset from the start of the array, with the
    address arithmetic of the machine (modulo \<open>2^32\<close>).
  \<^item> A function whose C behaviour is undefined on some input (a NULL dereference, an access
    outside the array) returns \<open>None\<close> there.
  \<^item> \<^verbatim>\<open>BT_ERR\<close> appends to the list \<open>errs\<close>; the \<^verbatim>\<open>BT_DBG\<close> trace has no effect on the
    state and is left out.
\<close>

type_synonym u8 = "8 word"
type_synonym u16 = "16 word"
type_synonym size_t = "32 word"

subsection \<open>Data model\<close>

text \<open>
  Modelled from the spec: \<^verbatim>\<open>enum bt_buf_type\<close> of the absent header
  \<^verbatim>\<open>bluetooth/bluetooth.h\<close>. The source names \<^verbatim>\<open>BT_CMD\<close>, \<^verbatim>\<open>BT_EVT\<close> and \<^verbatim>\<open>BT_ACL\<close>;
  \<open>BT_TYPE_OTHER\<close> stands for every other value of the field.
\<close>

datatype bt_buf_type = BT_CMD | BT_EVT | BT_ACL | BT_TYPE_OTHER

text \<open>A \<^verbatim>\<open>struct nano_sem *\<close> is the address of the semaphore.\<close>

type_synonym sem_ptr = nat

text \<open>
  Modelled from the spec: \<^verbatim>\<open>struct bt_buf\<close> of the absent header, with the fields the source
  uses: \<^verbatim>\<open>sync\<close>, \<^verbatim>\<open>opcode\<close>, \<^verbatim>\<open>type\<close>, \<^verbatim>\<open>len\<close>, \<^verbatim>\<open>data\<close> and the array \<^verbatim>\<open>buf\<close>.
\<close>

record (overloaded) ('l::len) bt_buf =
  sync :: "sem_ptr option"
  opcode :: u16
  type :: bt_buf_type
  len :: "'l word"
  data :: size_t
  buf :: "u8 list"

text \<open>The messages of \<^verbatim>\<open>BT_ERR\<close>, one constructor for each call in the source.\<close>

datatype bt_err =
    Failed_to_get_free_buffer
  | Cannot_get_free_buffer
  | ACL_data_length_mismatch nat nat
  | Unexpected_completion u16
  | Unknown_opcode u16
  | Unknown_event u8
  | Unknown_buf_type
  | Non_LE_capable_controller

text \<open>
  Modelled from the spec: \<^verbatim>\<open>struct bt_driver\<close> of the absent header. The source reads
  \<^verbatim>\<open>head_reserve\<close> and calls \<^verbatim>\<open>open\<close> and \<^verbatim>\<open>send\<close>. The driver is the stub of the spec's
  test plan: \<^verbatim>\<open>open\<close> returns \<open>open_err\<close> (\<open>None\<close> for 0), and \<^verbatim>\<open>send\<close> records the
  buffer it is handed (in \<open>drv_sent\<close> below) and leaves it as it is.
\<close>

datatype errno = ENOBUFS | ENODEV | EALREADY | EINVAL

record bt_driver =
  head_reserve :: size_t
  open_err :: "errno option"

text \<open>\<^verbatim>\<open>struct bt_dev\<close>. A \<^verbatim>\<open>nano_sem\<close> is its count, a \<^verbatim>\<open>nano_fifo\<close> the list of its
  elements, oldest first.\<close>

record (overloaded) ('l::len) bt_dev =
  bdaddr :: "u8 list"
  hci_version :: u8
  hci_revision :: u16
  manufacturer :: u16
  features :: "u8 list"
  le_features :: "u8 list"
  le_mtu :: u16
  le_pkts :: u8
  ncmd :: u8
  ncmd_sem :: nat
  sent_cmd :: "'l bt_buf option"
  rx_queue :: "'l bt_buf list"
  cmd_queue :: "'l bt_buf list"
  drv :: "bt_driver option"

text \<open>
  The program counters of the three threads of control: the command fiber
  \<^verbatim>\<open>hci_cmd_fiber\<close>, the receive fiber \<^verbatim>\<open>hci_rx_fiber\<close>, and the task that runs
  \<^verbatim>\<open>bt_init\<close> and \<^verbatim>\<open>hci_init\<close>. Each names the statement at which the thread stands; a
  task that waits inside \<^verbatim>\<open>bt_hci_cmd_send_sync\<close> carries the address of the semaphore it
  waits on, and a task that has returned carries the value returned (\<open>None\<close> for 0,
  \<open>Some e\<close> for \<^verbatim>\<open>-e\<close>).
\<close>

datatype cmd_pc = Cmd_not_started | Cmd_take_sem | Cmd_get_buf

datatype rx_pc = Rx_not_started | Rx_get_buf | Rx_returned

datatype init_pc =
    Init_not_started
  | Init_reset
  | Init_read_local_features
  | Init_read_local_version
  | Init_read_bd_addr
  | Init_wait_bd_addr sem_ptr
  | Init_le_check
  | Init_le_read_local_features
  | Init_le_read_buffer_size
  | Init_set_event_mask
  | Init_wait_set_event_mask sem_ptr
  | Init_bredr
  | Init_write_le_host_supp
  | Init_wait_write_le_host_supp sem_ptr
  | Init_returned "errno option"

text \<open>
  The whole state: \<^verbatim>\<open>dev\<close>, the static array \<^verbatim>\<open>buffers\<close> as it is when \<^verbatim>\<open>bt_init\<close>
  runs (from then on its elements are owned through the queues, and the field is not read
  again), the pool \<^verbatim>\<open>free_bufs\<close>, the semaphores that live on a caller's stack
  (\<^verbatim>\<open>sync_sem\<close>), the output of \<^verbatim>\<open>BT_ERR\<close>, the buffers the driver stub was handed, and
  the three program counters.
\<close>

record (overloaded) ('l::len) sys =
  dev :: "'l bt_dev"
  buffers :: "'l bt_buf list"
  free_bufs :: "'l bt_buf list"
  sems :: "sem_ptr \<Rightarrow> nat"
  errs :: "bt_err list"
  drv_sent :: "'l bt_buf list"
  cmd_fiber :: cmd_pc
  rx_fiber :: rx_pc
  init_task :: init_pc

definition BT_ERR :: "bt_err \<Rightarrow> 'l::len sys \<Rightarrow> 'l sys" where
  "BT_ERR e s = s\<lparr>errs := errs s @ [e]\<rparr>"

subsection \<open>Buffer pool and packet view\<close>

text \<open>Reading and writing one byte through a pointer into \<^verbatim>\<open>buf->buf\<close>; outside the
  array the behaviour is undefined.\<close>

definition load :: "'l::len bt_buf \<Rightarrow> size_t \<Rightarrow> u8 option" where
  "load b p = (if unat p < length (buf b) then Some (buf b ! unat p) else None)"

definition store :: "'l::len bt_buf \<Rightarrow> size_t \<Rightarrow> u8 \<Rightarrow> 'l bt_buf option" where
  "store b p v = (if unat p < length (buf b) then Some (b\<lparr>buf := (buf b)[unat p := v]\<rparr>) else None)"

definition bt_buf_get_reserve :: "size_t \<Rightarrow> 'l::len sys \<Rightarrow> 'l bt_buf option \<times> 'l sys" where
  "bt_buf_get_reserve reserve_head s =
     (case free_bufs s of
        [] \<Rightarrow> (None, BT_ERR Failed_to_get_free_buffer s)
      | b # bs \<Rightarrow>
          (Some (b\<lparr>data := reserve_head, len := 0, sync := None\<rparr>), s\<lparr>free_bufs := bs\<rparr>))"

definition bt_buf_get :: "'l::len sys \<Rightarrow> 'l bt_buf option \<times> 'l sys" where
  "bt_buf_get s = bt_buf_get_reserve 0 s"

definition bt_buf_put :: "'l::len bt_buf \<Rightarrow> 'l sys \<Rightarrow> 'l sys" where
  "bt_buf_put b s = s\<lparr>free_bufs := free_bufs s @ [b]\<rparr>"

text \<open>The three view operations return the pointer of the C function and the buffer as
  the function leaves it.\<close>

definition bt_buf_add :: "'l::len bt_buf \<Rightarrow> size_t \<Rightarrow> size_t \<times> 'l bt_buf" where
  "bt_buf_add b n = (data b + ucast (len b), b\<lparr>len := len b + ucast n\<rparr>)"

definition bt_buf_push :: "'l::len bt_buf \<Rightarrow> size_t \<Rightarrow> size_t \<times> 'l bt_buf" where
  "bt_buf_push b n = (data b - n, b\<lparr>data := data b - n, len := len b + ucast n\<rparr>)"

definition bt_buf_pull :: "'l::len bt_buf \<Rightarrow> size_t \<Rightarrow> size_t \<times> 'l bt_buf" where
  "bt_buf_pull b n = (data b + n, b\<lparr>len := len b - ucast n, data := data b + n\<rparr>)"

definition bt_buf_headroom :: "'l::len bt_buf \<Rightarrow> size_t" where
  "bt_buf_headroom b = data b"

definition bt_buf_tailroom :: "'l::len bt_buf \<Rightarrow> size_t" where
  "bt_buf_tailroom b = of_nat (length (buf b)) - bt_buf_headroom b - ucast (len b)"

text \<open>
  A sequence of view operations, each with the precondition the specification states for
  it, and the buffers it runs through.
\<close>

datatype buf_op = Add size_t | Push size_t | Pull size_t

fun op_pre :: "buf_op \<Rightarrow> 'l::len bt_buf \<Rightarrow> bool" where
  "op_pre (Add n) b = (n \<le> bt_buf_tailroom b)"
| "op_pre (Push n) b = (n \<le> bt_buf_headroom b)"
| "op_pre (Pull n) b = (unat n \<le> unat (len b))"

fun op_apply :: "buf_op \<Rightarrow> 'l::len bt_buf \<Rightarrow> 'l bt_buf" where
  "op_apply (Add n) b = snd (bt_buf_add b n)"
| "op_apply (Push n) b = snd (bt_buf_push b n)"
| "op_apply (Pull n) b = snd (bt_buf_pull b n)"

fun ops_pre :: "buf_op list \<Rightarrow> 'l::len bt_buf \<Rightarrow> bool" where
  "ops_pre [] b = True"
| "ops_pre (x # xs) b = (op_pre x b \<and> ops_pre xs (op_apply x b))"

fun ops_states :: "buf_op list \<Rightarrow> 'l::len bt_buf \<Rightarrow> 'l bt_buf list" where
  "ops_states [] b = []"
| "ops_states (x # xs) b = op_apply x b # ops_states xs (op_apply x b)"

text \<open>The invariant of the data model: the payload window lies inside the array (whose
  size is one a \<^verbatim>\<open>size_t\<close> can hold).\<close>

definition buf_inv :: "'l::len bt_buf \<Rightarrow> bool" where
  "buf_inv b \<longleftrightarrow> unat (data b) + unat (len b) \<le> length (buf b) \<and> length (buf b) < 2 ^ 32"

text \<open>Head-room, payload and tail-room add up to the capacity, as numbers (nothing wraps).\<close>

definition room_sum :: "'l::len bt_buf \<Rightarrow> bool" where
  "room_sum b \<longleftrightarrow>
     unat (bt_buf_headroom b) + unat (len b) + unat (bt_buf_tailroom b) = length (buf b)
     \<and> uint (bt_buf_headroom b) = uint (data b)
     \<and> uint (bt_buf_tailroom b) = int (length (buf b)) - uint (bt_buf_headroom b) - uint (len b)"

subsection \<open>Wire formats\<close>

text \<open>
  A \<^verbatim>\<open>uint16_t\<close> field read through \<^verbatim>\<open>sys_le16_to_cpu\<close> is the little-endian value of
  its two bytes on every CPU; \<^verbatim>\<open>sys_cpu_to_le16\<close> followed by the store writes them back.
  \<open>load_bytes\<close> is the source of a \<^verbatim>\<open>memcpy\<close>, \<open>store_bytes\<close> its destination.
\<close>

definition load_le16 :: "'l::len bt_buf \<Rightarrow> size_t \<Rightarrow> u16 option" where
  "load_le16 b p = do {
     lo \<leftarrow> load b p;
     hi \<leftarrow> load b (p + 1);
     Some (ucast lo OR push_bit 8 (ucast hi))
   }"

definition store_le16 :: "'l::len bt_buf \<Rightarrow> size_t \<Rightarrow> u16 \<Rightarrow> 'l bt_buf option" where
  "store_le16 b p v = do {
     b1 \<leftarrow> store b p (ucast v);
     store b1 (p + 1) (ucast (drop_bit 8 v))
   }"

fun load_bytes :: "'l::len bt_buf \<Rightarrow> size_t \<Rightarrow> nat \<Rightarrow> u8 list option" where
  "load_bytes b p 0 = Some []"
| "load_bytes b p (Suc n) = do {
     x \<leftarrow> load b p;
     xs \<leftarrow> load_bytes b (p + 1) n;
     Some (x # xs)
   }"

fun store_bytes :: "'l::len bt_buf \<Rightarrow> size_t \<Rightarrow> u8 list \<Rightarrow> 'l bt_buf option" where
  "store_bytes b p [] = Some b"
| "store_bytes b p (x # xs) = do {
     b1 \<leftarrow> store b p x;
     store_bytes b1 (p + 1) xs
   }"

text \<open>\<^verbatim>\<open>*p |= v\<close> on a byte of the array.\<close>

definition or_byte :: "'l::len bt_buf \<Rightarrow> size_t \<Rightarrow> u8 \<Rightarrow> 'l bt_buf option" where
  "or_byte b p v = do { x \<leftarrow> load b p; store b p (x OR v) }"

text \<open>
  Modelled from the spec: the constants of the absent header \<^verbatim>\<open>bluetooth/hci.h\<close>, with the
  values the Bluetooth Core Specification assigns to them: opcodes are
  \<^verbatim>\<open>ocf | ogf << 10\<close>, the two event codes, and the bits of LMP feature byte 4 and LE
  feature byte 0.
\<close>

definition BT_HCI_OP_SET_EVENT_MASK :: u16 where "BT_HCI_OP_SET_EVENT_MASK = 0x0c01"
definition BT_HCI_OP_RESET :: u16 where "BT_HCI_OP_RESET = 0x0c03"
definition BT_HCI_OP_LE_WRITE_LE_HOST_SUPP :: u16 where "BT_HCI_OP_LE_WRITE_LE_HOST_SUPP = 0x0c6d"
definition BT_HCI_OP_READ_LOCAL_VERSION_INFO :: u16 where "BT_HCI_OP_READ_LOCAL_VERSION_INFO = 0x1001"
definition BT_HCI_OP_READ_LOCAL_FEATURES :: u16 where "BT_HCI_OP_READ_LOCAL_FEATURES = 0x1003"
definition BT_HCI_OP_READ_BUFFER_SIZE :: u16 where "BT_HCI_OP_READ_BUFFER_SIZE = 0x1005"
definition BT_HCI_OP_READ_BD_ADDR :: u16 where "BT_HCI_OP_READ_BD_ADDR = 0x1009"
definition BT_HCI_OP_LE_READ_BUFFER_SIZE :: u16 where "BT_HCI_OP_LE_READ_BUFFER_SIZE = 0x2002"
definition BT_HCI_OP_LE_READ_LOCAL_FEATURES :: u16 where "BT_HCI_OP_LE_READ_LOCAL_FEATURES = 0x2003"

definition BT_HCI_EVT_CMD_COMPLETE :: u8 where "BT_HCI_EVT_CMD_COMPLETE = 0x0e"
definition BT_HCI_EVT_CMD_STATUS :: u8 where "BT_HCI_EVT_CMD_STATUS = 0x0f"

definition BT_LMP_NO_BREDR :: u8 where "BT_LMP_NO_BREDR = 0x20"
definition BT_LMP_LE :: u8 where "BT_LMP_LE = 0x40"
definition BT_HCI_LE_ENCRYPTION :: u8 where "BT_HCI_LE_ENCRYPTION = 0x01"

definition bt_acl_handle :: "u16 \<Rightarrow> u16" where
  "bt_acl_handle h = h AND 0x0fff"

definition NUM_BUFS :: nat where "NUM_BUFS = 5"

text \<open>
  Modelled from the spec: the sizes of the packed wire structures of the absent header:
  command header (opcode, param\_len), event header (evt, param\_len), ACL header
  (handle, len), the prologue of Command Complete (ncmd, opcode), Command Status
  (status, ncmd, opcode), and the two command parameter blocks \<^verbatim>\<open>hci_init\<close> fills.
\<close>

definition sizeof_cmd_hdr :: size_t where "sizeof_cmd_hdr = 3"
definition sizeof_evt_hdr :: size_t where "sizeof_evt_hdr = 2"
definition sizeof_acl_hdr :: size_t where "sizeof_acl_hdr = 4"
definition sizeof_evt_cmd_complete :: size_t where "sizeof_evt_cmd_complete = 3"
definition sizeof_evt_cmd_status :: size_t where "sizeof_evt_cmd_status = 4"
definition sizeof_cp_set_event_mask :: size_t where "sizeof_cp_set_event_mask = 8"
definition sizeof_cp_write_le_host_supp :: size_t where "sizeof_cp_write_le_host_supp = 2"

definition lmp_bredr_capable :: "'l::len bt_dev \<Rightarrow> bool" where
  "lmp_bredr_capable d \<longleftrightarrow> \<not> (features d ! 4 AND BT_LMP_NO_BREDR \<noteq> 0)"

definition lmp_le_capable :: "'l::len bt_dev \<Rightarrow> bool" where
  "lmp_le_capable d \<longleftrightarrow> features d ! 4 AND BT_LMP_LE \<noteq> 0"

subsection \<open>Commands, host to controller\<close>

text \<open>\<^verbatim>\<open>dev.drv->head_reserve\<close> dereferences \<^verbatim>\<open>dev.drv\<close>.\<close>

definition bt_hci_cmd_create ::
  "u16 \<Rightarrow> u8 \<Rightarrow> 'l::len sys \<Rightarrow> ('l bt_buf option \<times> 'l sys) option" where
  "bt_hci_cmd_create opc param_len s = do {
     d \<leftarrow> drv (dev s);
     case bt_buf_get_reserve (head_reserve d) s of
       (None, s1) \<Rightarrow> Some (None, BT_ERR Cannot_get_free_buffer s1)
     | (Some b, s1) \<Rightarrow> do {
         let b1 = b\<lparr>type := BT_CMD, opcode := opc, sync := None\<rparr>;
         let (hdr, b2) = bt_buf_add b1 sizeof_cmd_hdr;
         b3 \<leftarrow> store_le16 b2 hdr opc;
         b4 \<leftarrow> store b3 (hdr + 2) param_len;
         Some (Some b4, s1)
       }
   }"

definition cmd_queue_put :: "'l::len bt_buf \<Rightarrow> 'l sys \<Rightarrow> 'l sys" where
  "cmd_queue_put b s = s\<lparr>dev := (dev s)\<lparr>cmd_queue := cmd_queue (dev s) @ [b]\<rparr>\<rparr>"

definition bt_hci_cmd_send ::
  "u16 \<Rightarrow> 'l::len bt_buf option \<Rightarrow> 'l sys \<Rightarrow> (errno option \<times> 'l sys) option" where
  "bt_hci_cmd_send opc buf_arg s =
     (case buf_arg of
        Some b \<Rightarrow> Some (None, cmd_queue_put b s)
      | None \<Rightarrow> do {
          (r, s1) \<leftarrow> bt_hci_cmd_create opc 0 s;
          case r of
            None \<Rightarrow> Some (Some ENOBUFS, s1)
          | Some b \<Rightarrow> Some (None, cmd_queue_put b s1)
        })"

text \<open>
  \<^verbatim>\<open>bt_hci_cmd_send_sync\<close> blocks in \<^verbatim>\<open>nano_sem_take_wait\<close>. The function below is the
  part before that call: it returns \<^verbatim>\<open>-ENOBUFS\<close>, or it has queued the buffer and stands
  at the wait. \<open>sync_sem\<close> is the address of the local semaphore. The rest of the C
  function is \<open>nano_sem_take_wait\<close> and \<^verbatim>\<open>return 0\<close>.
\<close>

datatype sync_call = Sync_failed errno | Sync_waiting

definition nano_sem_init :: "sem_ptr \<Rightarrow> 'l::len sys \<Rightarrow> 'l sys" where
  "nano_sem_init p s = s\<lparr>sems := (sems s)(p := 0)\<rparr>"

definition nano_sem_give :: "sem_ptr \<Rightarrow> 'l::len sys \<Rightarrow> 'l sys" where
  "nano_sem_give p s = s\<lparr>sems := (sems s)(p := Suc (sems s p))\<rparr>"

text \<open>Taking a semaphore whose count is 0 blocks: there is no next state.\<close>

definition nano_sem_take_wait :: "sem_ptr \<Rightarrow> 'l::len sys \<Rightarrow> 'l sys option" where
  "nano_sem_take_wait p s =
     (if sems s p = 0 then None else Some (s\<lparr>sems := (sems s)(p := sems s p - 1)\<rparr>))"

definition bt_hci_cmd_send_sync ::
  "sem_ptr \<Rightarrow> u16 \<Rightarrow> 'l::len bt_buf option \<Rightarrow> 'l sys \<Rightarrow> (sync_call \<times> 'l sys) option" where
  "bt_hci_cmd_send_sync sync_sem opc buf_arg s = do {
     (r, s1) \<leftarrow> (case buf_arg of
                   Some b \<Rightarrow> Some (Some b, s)
                 | None \<Rightarrow> bt_hci_cmd_create opc 0 s);
     case r of
       None \<Rightarrow> Some (Sync_failed ENOBUFS, s1)
     | Some b \<Rightarrow>
         Some (Sync_waiting, cmd_queue_put (b\<lparr>sync := Some sync_sem\<rparr>) (nano_sem_init sync_sem s1))
   }"

subsection \<open>ACL data, controller to host\<close>

definition hci_acl :: "'l::len bt_buf \<Rightarrow> 'l sys \<Rightarrow> 'l sys option" where
  "hci_acl b s = do {
     let hdr = data b;
     hlen \<leftarrow> load_le16 b (hdr + 2);
     handle \<leftarrow> load_le16 b hdr;
     let flags = (ucast (drop_bit 12 handle) :: u8);
     let handle = bt_acl_handle handle;
     let b1 = snd (bt_buf_pull b sizeof_acl_hdr);
     if unat (len b1) \<noteq> unat hlen
     then Some (bt_buf_put b1 (BT_ERR (ACL_data_length_mismatch (unat (len b1)) (unat hlen)) s))
     else Some (bt_buf_put b1 s)
   }"

subsection \<open>Events: the response parsers\<close>

text \<open>
  Modelled from the spec: the return parameters are the packed structures of the absent
  header, in the order of the HCI specification: \<^verbatim>\<open>status\<close> is byte 0 of each;
  version information has \<^verbatim>\<open>hci_version\<close> at 1, \<^verbatim>\<open>hci_revision\<close> at 2,
  \<^verbatim>\<open>manufacturer\<close> at 5; features and the address follow the status byte; the BR/EDR
  buffer size has \<^verbatim>\<open>acl_max_len\<close> at 1 and \<^verbatim>\<open>acl_max_num\<close> at 4; the LE buffer size has
  \<^verbatim>\<open>le_max_len\<close> at 1 and \<^verbatim>\<open>le_max_num\<close> at 3.
\<close>

definition hci_reset_complete :: "'l::len bt_buf \<Rightarrow> 'l bt_dev \<Rightarrow> 'l bt_dev option" where
  "hci_reset_complete b d = do {
     status \<leftarrow> load b (data b);
     if status \<noteq> 0 then Some d else Some d
   }"

definition hci_read_local_ver_complete :: "'l::len bt_buf \<Rightarrow> 'l bt_dev \<Rightarrow> 'l bt_dev option" where
  "hci_read_local_ver_complete b d = do {
     let rp = data b;
     status \<leftarrow> load b rp;
     if status \<noteq> 0 then Some d
     else do {
       ver \<leftarrow> load b (rp + 1);
       rev \<leftarrow> load_le16 b (rp + 2);
       man \<leftarrow> load_le16 b (rp + 5);
       Some (d\<lparr>hci_version := ver, hci_revision := rev, manufacturer := man\<rparr>)
     }
   }"

definition hci_read_features_complete :: "'l::len bt_buf \<Rightarrow> 'l bt_dev \<Rightarrow> 'l bt_dev option" where
  "hci_read_features_complete b d = do {
     let rp = data b;
     fs \<leftarrow> load_bytes b (rp + 1) 8;
     Some (d\<lparr>features := fs\<rparr>)
   }"

definition hci_read_buffer_size_complete :: "'l::len bt_buf \<Rightarrow> 'l bt_dev \<Rightarrow> 'l bt_dev option" where
  "hci_read_buffer_size_complete b d = do {
     let rp = data b;
     status \<leftarrow> load b rp;
     if status \<noteq> 0 then Some d
     else if le_mtu d \<noteq> 0 then Some d
     else do {
       acl_max_len \<leftarrow> load_le16 b (rp + 1);
       acl_max_num \<leftarrow> load_le16 b (rp + 4);
       Some (d\<lparr>le_mtu := acl_max_len, le_pkts := ucast acl_max_num\<rparr>)
     }
   }"

definition hci_read_bdaddr_complete :: "'l::len bt_buf \<Rightarrow> 'l bt_dev \<Rightarrow> 'l bt_dev option" where
  "hci_read_bdaddr_complete b d = do {
     let rp = data b;
     status \<leftarrow> load b rp;
     if status \<noteq> 0 then Some d
     else do {
       a \<leftarrow> load_bytes b (rp + 1) 6;
       Some (d\<lparr>bdaddr := a\<rparr>)
     }
   }"

definition hci_le_read_buffer_size_complete :: "'l::len bt_buf \<Rightarrow> 'l bt_dev \<Rightarrow> 'l bt_dev option" where
  "hci_le_read_buffer_size_complete b d = do {
     let rp = data b;
     status \<leftarrow> load b rp;
     if status \<noteq> 0 then Some d
     else do {
       le_max_len \<leftarrow> load_le16 b (rp + 1);
       le_max_num \<leftarrow> load b (rp + 3);
       Some (d\<lparr>le_mtu := le_max_len, le_pkts := le_max_num\<rparr>)
     }
   }"

definition hci_le_read_features_complete :: "'l::len bt_buf \<Rightarrow> 'l bt_dev \<Rightarrow> 'l bt_dev option" where
  "hci_le_read_features_complete b d = do {
     let rp = data b;
     fs \<leftarrow> load_bytes b (rp + 1) 8;
     Some (d\<lparr>le_features := fs\<rparr>)
   }"

subsection \<open>Events: completion and credit\<close>

text \<open>\<^verbatim>\<open>dev.sent_cmd->opcode\<close> dereferences \<^verbatim>\<open>dev.sent_cmd\<close> before anything else.\<close>

definition hci_cmd_done :: "u16 \<Rightarrow> 'l::len sys \<Rightarrow> 'l sys option" where
  "hci_cmd_done opc s =
     (case sent_cmd (dev s) of
        None \<Rightarrow> None
      | Some sent \<Rightarrow>
          if opcode sent \<noteq> opc then Some (BT_ERR (Unexpected_completion opc) s)
          else
            let s1 = s\<lparr>dev := (dev s)\<lparr>sent_cmd := None\<rparr>\<rparr>;
                s2 = (case sync sent of None \<Rightarrow> s1 | Some p \<Rightarrow> nano_sem_give p s1)
            in Some (bt_buf_put sent s2))"

text \<open>The \<^verbatim>\<open>switch (opcode)\<close> of \<^verbatim>\<open>hci_cmd_complete\<close>.\<close>

definition with_dev :: "('l::len bt_dev \<Rightarrow> 'l bt_dev option) \<Rightarrow> 'l sys \<Rightarrow> 'l sys option" where
  "with_dev f s = do { d \<leftarrow> f (dev s); Some (s\<lparr>dev := d\<rparr>) }"

definition hci_cmd_complete_switch :: "u16 \<Rightarrow> 'l::len bt_buf \<Rightarrow> 'l sys \<Rightarrow> 'l sys option" where
  "hci_cmd_complete_switch opc b s =
     (if opc = BT_HCI_OP_RESET then with_dev (hci_reset_complete b) s
      else if opc = BT_HCI_OP_READ_LOCAL_VERSION_INFO then with_dev (hci_read_local_ver_complete b) s
      else if opc = BT_HCI_OP_READ_LOCAL_FEATURES then with_dev (hci_read_features_complete b) s
      else if opc = BT_HCI_OP_READ_BUFFER_SIZE then with_dev (hci_read_buffer_size_complete b) s
      else if opc = BT_HCI_OP_READ_BD_ADDR then with_dev (hci_read_bdaddr_complete b) s
      else if opc = BT_HCI_OP_LE_READ_BUFFER_SIZE then with_dev (hci_le_read_buffer_size_complete b) s
      else if opc = BT_HCI_OP_LE_READ_LOCAL_FEATURES then with_dev (hci_le_read_features_complete b) s
      else Some (BT_ERR (Unknown_opcode opc) s))"

text \<open>The last statement of \<^verbatim>\<open>hci_cmd_complete\<close> and of \<^verbatim>\<open>hci_cmd_status\<close>:
  \<^verbatim>\<open>if (evt->ncmd && !dev.ncmd) { dev.ncmd = 1; nano_fiber_sem_give(&dev.ncmd_sem); }\<close>.\<close>

definition ncmd_refill :: "u8 \<Rightarrow> 'l::len sys \<Rightarrow> 'l sys" where
  "ncmd_refill evt_ncmd s =
     (if evt_ncmd \<noteq> 0 \<and> ncmd (dev s) = 0
      then s\<lparr>dev := (dev s)\<lparr>ncmd := 1, ncmd_sem := Suc (ncmd_sem (dev s))\<rparr>\<rparr>
      else s)"

text \<open>Both handlers return the event buffer as \<^verbatim>\<open>bt_buf_pull\<close> left it.\<close>

definition hci_cmd_complete :: "'l::len bt_buf \<Rightarrow> 'l sys \<Rightarrow> ('l bt_buf \<times> 'l sys) option" where
  "hci_cmd_complete b s = do {
     let evt = data b;
     opc \<leftarrow> load_le16 b (evt + 1);
     let b1 = snd (bt_buf_pull b sizeof_evt_cmd_complete);
     s1 \<leftarrow> hci_cmd_complete_switch opc b1 s;
     s2 \<leftarrow> hci_cmd_done opc s1;
     evt_ncmd \<leftarrow> load b1 evt;
     Some (b1, ncmd_refill evt_ncmd s2)
   }"

definition hci_cmd_status :: "'l::len bt_buf \<Rightarrow> 'l sys \<Rightarrow> ('l bt_buf \<times> 'l sys) option" where
  "hci_cmd_status b s = do {
     let evt = data b;
     opc \<leftarrow> load_le16 b (evt + 2);
     let b1 = snd (bt_buf_pull b sizeof_evt_cmd_status);
     let s1 = BT_ERR (Unknown_opcode opc) s;
     s2 \<leftarrow> hci_cmd_done opc s1;
     evt_ncmd \<leftarrow> load b1 (evt + 1);
     Some (b1, ncmd_refill evt_ncmd s2)
   }"

definition hci_event :: "'l::len bt_buf \<Rightarrow> 'l sys \<Rightarrow> 'l sys option" where
  "hci_event b s = do {
     let hdr = data b;
     evt \<leftarrow> load b hdr;
     let b1 = snd (bt_buf_pull b sizeof_evt_hdr);
     (b2, s1) \<leftarrow> (if evt = BT_HCI_EVT_CMD_COMPLETE then hci_cmd_complete b1 s
                  else if evt = BT_HCI_EVT_CMD_STATUS then hci_cmd_status b1 s
                  else Some (b1, BT_ERR (Unknown_event evt) s));
     Some (bt_buf_put b2 s1)
   }"

subsection \<open>The two fibers\<close>

text \<open>
  One step of \<^verbatim>\<open>hci_cmd_fiber\<close>: from one wait to the next. A wait that cannot be
  satisfied has no next state. \<^verbatim>\<open>drv->send\<close> does not yield; the stub records the buffer.
\<close>

definition hci_cmd_fiber :: "'l::len sys \<Rightarrow> 'l sys option" where
  "hci_cmd_fiber s =
     (case cmd_fiber s of
        Cmd_not_started \<Rightarrow> None
      | Cmd_take_sem \<Rightarrow>
          if ncmd_sem (dev s) = 0 then None
          else Some (s\<lparr>dev := (dev s)\<lparr>ncmd_sem := ncmd_sem (dev s) - 1\<rparr>, cmd_fiber := Cmd_get_buf\<rparr>)
      | Cmd_get_buf \<Rightarrow>
          (case cmd_queue (dev s) of
             [] \<Rightarrow> None
           | b # q \<Rightarrow>
               Some (s\<lparr>dev := (dev s)\<lparr>cmd_queue := q, ncmd := 0, sent_cmd := Some b\<rparr>,
                       drv_sent := drv_sent s @ [b],
                       cmd_fiber := Cmd_take_sem\<rparr>)))"

text \<open>One iteration of the loop of \<^verbatim>\<open>hci_rx_fiber\<close>.\<close>

definition hci_rx_fiber :: "'l::len sys \<Rightarrow> 'l sys option" where
  "hci_rx_fiber s =
     (case rx_fiber s of
        Rx_not_started \<Rightarrow> None
      | Rx_returned \<Rightarrow> None
      | Rx_get_buf \<Rightarrow>
          (case rx_queue (dev s) of
             [] \<Rightarrow> None
           | b # q \<Rightarrow>
               let s1 = s\<lparr>dev := (dev s)\<lparr>rx_queue := q\<rparr>\<rparr> in
               if type b = BT_ACL then hci_acl b s1
               else if type b = BT_EVT then hci_event b s1
               else Some ((BT_ERR Unknown_buf_type s1)\<lparr>rx_fiber := Rx_returned\<rparr>)))"

definition bt_recv :: "'l::len bt_buf \<Rightarrow> 'l sys \<Rightarrow> 'l sys" where
  "bt_recv b s = s\<lparr>dev := (dev s)\<lparr>rx_queue := rx_queue (dev s) @ [b]\<rparr>\<rparr>"

subsection \<open>Bring-up\<close>

definition free_queue_init :: "'l::len sys \<Rightarrow> 'l sys" where
  "free_queue_init s = fold (\<lambda>i. bt_buf_put (buffers s ! i)) [0..<NUM_BUFS] (s\<lparr>free_bufs := []\<rparr>)"

definition cmd_queue_init :: "'l::len sys \<Rightarrow> 'l sys" where
  "cmd_queue_init s =
     s\<lparr>dev := (dev s)\<lparr>cmd_queue := [], ncmd := 1, ncmd_sem := Suc 0\<rparr>, cmd_fiber := Cmd_take_sem\<rparr>"

definition rx_queue_init :: "'l::len sys \<Rightarrow> 'l sys" where
  "rx_queue_init s = s\<lparr>dev := (dev s)\<lparr>rx_queue := []\<rparr>, rx_fiber := Rx_get_buf\<rparr>"

text \<open>\<^verbatim>\<open>bt_init\<close> up to its last statement, the call of \<^verbatim>\<open>hci_init\<close>.\<close>

definition bt_init :: "'l::len sys \<Rightarrow> 'l sys" where
  "bt_init s =
     (case drv (dev s) of
        None \<Rightarrow> s\<lparr>init_task := Init_returned (Some ENODEV)\<rparr>
      | Some d \<Rightarrow>
          let s1 = rx_queue_init (cmd_queue_init (free_queue_init s)) in
          (case open_err d of
             Some e \<Rightarrow> s1\<lparr>init_task := Init_returned (Some e)\<rparr>
           | None \<Rightarrow> s1\<lparr>init_task := Init_reset\<rparr>))"

text \<open>The parameter block of \<^verbatim>\<open>SET_EVENT_MASK\<close>, statement by statement.\<close>

definition set_event_mask_params :: "'l::len bt_dev \<Rightarrow> 'l bt_buf \<Rightarrow> 'l bt_buf option" where
  "set_event_mask_params d b = do {
     let (ev, b0) = bt_buf_add b sizeof_cp_set_event_mask;
     b1 \<leftarrow> store_bytes b0 ev (replicate 8 0);
     b2 \<leftarrow> or_byte b1 ev 0x10;
     b3 \<leftarrow> or_byte b2 (ev + 1) 0x08;
     b4 \<leftarrow> or_byte b3 (ev + 1) 0x20;
     b5 \<leftarrow> or_byte b4 (ev + 1) 0x40;
     b6 \<leftarrow> or_byte b5 (ev + 1) 0x80;
     b7 \<leftarrow> or_byte b6 (ev + 2) 0x04;
     b8 \<leftarrow> or_byte b7 (ev + 3) 0x02;
     b9 \<leftarrow> or_byte b8 (ev + 7) 0x20;
     if le_features d ! 0 AND BT_HCI_LE_ENCRYPTION \<noteq> 0
     then do { b10 \<leftarrow> or_byte b9 ev 0x80; or_byte b10 (ev + 5) 0x80 }
     else Some b9
   }"

definition write_le_host_supp_params :: "'l::len bt_buf \<Rightarrow> 'l bt_buf option" where
  "write_le_host_supp_params b = do {
     let (cp, b0) = bt_buf_add b sizeof_cp_write_le_host_supp;
     b1 \<leftarrow> store b0 cp 0x01;
     store b1 (cp + 1) 0x00
   }"

text \<open>
  \<^verbatim>\<open>hci_init\<close>, one step for each call that touches the pool or a queue and one for each
  wait; the program counter names the statement the task stands at. \<open>sync_sem\<close> is the
  address of the local semaphore of a \<^verbatim>\<open>bt_hci_cmd_send_sync\<close> that the step enters. The
  values the source throws away are bound to \<open>r\<close> and not used.
\<close>

definition hci_init :: "sem_ptr \<Rightarrow> 'l::len sys \<Rightarrow> 'l sys option" where
  "hci_init sync_sem s =
     (case init_task s of
        Init_not_started \<Rightarrow> None
      | Init_reset \<Rightarrow> do {
          (r, s1) \<leftarrow> bt_hci_cmd_send BT_HCI_OP_RESET None s;
          Some (s1\<lparr>init_task := Init_read_local_features\<rparr>) }
      | Init_read_local_features \<Rightarrow> do {
          (r, s1) \<leftarrow> bt_hci_cmd_send BT_HCI_OP_READ_LOCAL_FEATURES None s;
          Some (s1\<lparr>init_task := Init_read_local_version\<rparr>) }
      | Init_read_local_version \<Rightarrow> do {
          (r, s1) \<leftarrow> bt_hci_cmd_send BT_HCI_OP_READ_LOCAL_VERSION_INFO None s;
          Some (s1\<lparr>init_task := Init_read_bd_addr\<rparr>) }
      | Init_read_bd_addr \<Rightarrow> do {
          (r, s1) \<leftarrow> bt_hci_cmd_send_sync sync_sem BT_HCI_OP_READ_BD_ADDR None s;
          case r of
            Sync_failed e \<Rightarrow> Some (s1\<lparr>init_task := Init_le_check\<rparr>)
          | Sync_waiting \<Rightarrow> Some (s1\<lparr>init_task := Init_wait_bd_addr sync_sem\<rparr>) }
      | Init_wait_bd_addr p \<Rightarrow> do {
          s1 \<leftarrow> nano_sem_take_wait p s;
          Some (s1\<lparr>init_task := Init_le_check\<rparr>) }
      | Init_le_check \<Rightarrow>
          if \<not> lmp_le_capable (dev s)
          then Some ((BT_ERR Non_LE_capable_controller s)\<lparr>init_task := Init_returned (Some ENODEV)\<rparr>)
          else Some (s\<lparr>init_task := Init_le_read_local_features\<rparr>)
      | Init_le_read_local_features \<Rightarrow> do {
          (r, s1) \<leftarrow> bt_hci_cmd_send BT_HCI_OP_LE_READ_LOCAL_FEATURES None s;
          Some (s1\<lparr>init_task := Init_le_read_buffer_size\<rparr>) }
      | Init_le_read_buffer_size \<Rightarrow> do {
          (r, s1) \<leftarrow> bt_hci_cmd_send BT_HCI_OP_LE_READ_BUFFER_SIZE None s;
          Some (s1\<lparr>init_task := Init_set_event_mask\<rparr>) }
      | Init_set_event_mask \<Rightarrow> do {
          (r, s1) \<leftarrow> bt_hci_cmd_create BT_HCI_OP_SET_EVENT_MASK 8 s;
          case r of
            None \<Rightarrow> Some (s1\<lparr>init_task := Init_returned (Some ENOBUFS)\<rparr>)
          | Some b \<Rightarrow> do {
              b1 \<leftarrow> set_event_mask_params (dev s1) b;
              (r2, s2) \<leftarrow> bt_hci_cmd_send_sync sync_sem BT_HCI_OP_SET_EVENT_MASK (Some b1) s1;
              case r2 of
                Sync_failed e \<Rightarrow> Some (s2\<lparr>init_task := Init_bredr\<rparr>)
              | Sync_waiting \<Rightarrow> Some (s2\<lparr>init_task := Init_wait_set_event_mask sync_sem\<rparr>) } }
      | Init_wait_set_event_mask p \<Rightarrow> do {
          s1 \<leftarrow> nano_sem_take_wait p s;
          Some (s1\<lparr>init_task := Init_bredr\<rparr>) }
      | Init_bredr \<Rightarrow>
          if lmp_bredr_capable (dev s)
          then do {
            (r, s1) \<leftarrow> (if le_mtu (dev s) = 0
                         then bt_hci_cmd_send BT_HCI_OP_READ_BUFFER_SIZE None s
                         else Some (None, s));
            Some (s1\<lparr>init_task := Init_write_le_host_supp\<rparr>) }
          else Some (s\<lparr>init_task := Init_returned None\<rparr>)
      | Init_write_le_host_supp \<Rightarrow> do {
          (r, s1) \<leftarrow> bt_hci_cmd_create BT_HCI_OP_LE_WRITE_LE_HOST_SUPP
                       (ucast sizeof_cp_write_le_host_supp) s;
          case r of
            None \<Rightarrow> Some (s1\<lparr>init_task := Init_returned (Some ENOBUFS)\<rparr>)
          | Some b \<Rightarrow> do {
              b1 \<leftarrow> write_le_host_supp_params b;
              (r2, s2) \<leftarrow> bt_hci_cmd_send_sync sync_sem BT_HCI_OP_LE_WRITE_LE_HOST_SUPP (Some b1) s1;
              case r2 of
                Sync_failed e \<Rightarrow> Some (s2\<lparr>init_task := Init_returned None\<rparr>)
              | Sync_waiting \<Rightarrow> Some (s2\<lparr>init_task := Init_wait_write_le_host_supp sync_sem\<rparr>) } }
      | Init_wait_write_le_host_supp p \<Rightarrow> do {
          s1 \<leftarrow> nano_sem_take_wait p s;
          Some (s1\<lparr>init_task := Init_returned None\<rparr>) }
      | Init_returned r \<Rightarrow> None)"

subsection \<open>The system: cooperative threads and the controller\<close>

text \<open>
  The threads run interleaved; a step of the system is a step of one of them, or the
  driver handing a received packet to \<^verbatim>\<open>bt_recv\<close> (any buffer: the driver is not part
  of the sources). The task calls \<^verbatim>\<open>bt_init\<close>, which ends in \<^verbatim>\<open>hci_init\<close>; the address
  that \<open>Task\<close> carries is where the frame of \<^verbatim>\<open>bt_hci_cmd_send_sync\<close> lies if the step
  enters that function. A step that is blocked, or whose C behaviour is undefined, has no
  next state. \<open>run\<close> is the state after a list of steps, if each of them has a next
  state.
\<close>

datatype 'b action =
    Task sem_ptr
  | Cmd_fiber
  | Rx_fiber
  | Recv 'b

definition step :: "'l::len bt_buf action \<Rightarrow> 'l sys \<Rightarrow> 'l sys option" where
  "step a s =
     (case a of
        Task sync_sem \<Rightarrow>
          (if init_task s = Init_not_started then Some (bt_init s) else hci_init sync_sem s)
      | Cmd_fiber \<Rightarrow> hci_cmd_fiber s
      | Rx_fiber \<Rightarrow> hci_rx_fiber s
      | Recv b \<Rightarrow> Some (bt_recv b s))"

fun run :: "'l::len bt_buf action list \<Rightarrow> 'l sys \<Rightarrow> 'l sys option" where
  "run [] s = Some s"
| "run (a # as) s = (case step a s of None \<Rightarrow> None | Some s1 \<Rightarrow> run as s1)"

text \<open>
  The state at start-up: static storage is zero, no thread has started, and a driver
  \<open>d\<close> has been registered. The contents \<open>bufs\<close> of the array \<^verbatim>\<open>buffers\<close> are arbitrary.
\<close>

definition boot :: "bt_driver \<Rightarrow> 'l::len bt_buf list \<Rightarrow> 'l sys" where
  "boot d bufs =
     \<lparr>dev = \<lparr>bdaddr = replicate 6 0, hci_version = 0, hci_revision = 0, manufacturer = 0,
             features = replicate 8 0, le_features = replicate 8 0, le_mtu = 0, le_pkts = 0,
             ncmd = 0, ncmd_sem = 0, sent_cmd = None, rx_queue = [], cmd_queue = [],
             drv = Some d\<rparr>,
      buffers = bufs, free_bufs = [], sems = (\<lambda>p. 0), errs = [], drv_sent = [],
      cmd_fiber = Cmd_not_started, rx_fiber = Rx_not_started, init_task = Init_not_started\<rparr>"

text \<open>
  What a test harness observes of a step: a buffer handed to \<^verbatim>\<open>drv->send\<close>; a Command
  Complete or Command Status event for an opcode consumed by the receive fiber (and so by
  \<^verbatim>\<open>hci_cmd_done\<close>); a credit given to \<^verbatim>\<open>ncmd_sem\<close> by the receive fiber; the task entering
  the wait of \<^verbatim>\<open>bt_hci_cmd_send_sync\<close> for an opcode; that call returning 0.
\<close>

datatype obs =
    Handed_to_driver
  | Consumed u16
  | Credit_refill
  | Sync_call u16
  | Sync_ok u16

fun waiting_for :: "init_pc \<Rightarrow> (u16 \<times> sem_ptr) option" where
  "waiting_for (Init_wait_bd_addr p) = Some (BT_HCI_OP_READ_BD_ADDR, p)"
| "waiting_for (Init_wait_set_event_mask p) = Some (BT_HCI_OP_SET_EVENT_MASK, p)"
| "waiting_for (Init_wait_write_le_host_supp p) = Some (BT_HCI_OP_LE_WRITE_LE_HOST_SUPP, p)"
| "waiting_for pc = None"

text \<open>The opcode of a queued packet, if it is a Command Complete or Command Status event.\<close>

definition completion_opcode :: "'l::len bt_buf \<Rightarrow> u16 option" where
  "completion_opcode b =
     (if type b \<noteq> BT_EVT then None
      else case load b (data b) of
             None \<Rightarrow> None
           | Some evt \<Rightarrow>
               if evt = BT_HCI_EVT_CMD_COMPLETE then load_le16 b (data b + sizeof_evt_hdr + 1)
               else if evt = BT_HCI_EVT_CMD_STATUS then load_le16 b (data b + sizeof_evt_hdr + 2)
               else None)"

definition observe :: "'l::len bt_buf action \<Rightarrow> 'l sys \<Rightarrow> 'l sys \<Rightarrow> obs list" where
  "observe a s s1 =
     (case a of
        Task p \<Rightarrow>
          (case (waiting_for (init_task s), waiting_for (init_task s1)) of
             (None, Some (opc, q)) \<Rightarrow> [Sync_call opc]
           | (Some (opc, q), None) \<Rightarrow> [Sync_ok opc]
           | _ \<Rightarrow> [])
      | Cmd_fiber \<Rightarrow> (if cmd_fiber s = Cmd_get_buf then [Handed_to_driver] else [])
      | Rx_fiber \<Rightarrow>
          (case rx_queue (dev s) of
             [] \<Rightarrow> []
           | b # q \<Rightarrow> (case completion_opcode b of None \<Rightarrow> [] | Some opc \<Rightarrow> [Consumed opc]))
          @ (if ncmd_sem (dev s1) = Suc (ncmd_sem (dev s)) then [Credit_refill] else [])
      | Recv b \<Rightarrow> [])"

text \<open>The observations of a list of steps, up to the first step that has no next state.\<close>

fun trace :: "'l::len bt_buf action list \<Rightarrow> 'l sys \<Rightarrow> obs list" where
  "trace [] s = []"
| "trace (a # as) s = (case step a s of None \<Rightarrow> [] | Some s1 \<Rightarrow> observe a s s1 @ trace as s1)"

subsection \<open>Monitors\<close>

text \<open>
  Two monitors read the observations of a run from left to right. The credit monitor
  remembers whether a buffer has been handed to the driver with no credit refill since;
  it rejects a second hand-over in that state. The monitor of synchronous sends remembers
  the opcode a caller waits for and whether an event for that opcode has been consumed
  since the call; it rejects a return of the call before that.
\<close>

fun credit_step :: "bool \<Rightarrow> obs \<Rightarrow> bool" where
  "credit_step p Handed_to_driver = True"
| "credit_step p Credit_refill = False"
| "credit_step p x = p"

fun credit_bad :: "bool \<Rightarrow> obs \<Rightarrow> bool" where
  "credit_bad p Handed_to_driver = p"
| "credit_bad p x = False"

fun credit_accept :: "bool \<Rightarrow> obs list \<Rightarrow> bool" where
  "credit_accept p [] = True"
| "credit_accept p (x # tr) = (\<not> credit_bad p x \<and> credit_accept (credit_step p x) tr)"

fun sync_step :: "(u16 \<times> bool) option \<Rightarrow> obs \<Rightarrow> (u16 \<times> bool) option" where
  "sync_step m (Sync_call opc) = Some (opc, False)"
| "sync_step m (Consumed opc) =
     (case m of None \<Rightarrow> None | Some (w, d) \<Rightarrow> Some (w, d \<or> opc = w))"
| "sync_step m (Sync_ok opc) = None"
| "sync_step m x = m"

fun sync_bad :: "(u16 \<times> bool) option \<Rightarrow> obs \<Rightarrow> bool" where
  "sync_bad m (Sync_ok opc) = (m \<noteq> Some (opc, True))"
| "sync_bad m x = False"

fun sync_accept :: "(u16 \<times> bool) option \<Rightarrow> obs list \<Rightarrow> bool" where
  "sync_accept m [] = True"
| "sync_accept m (x # tr) = (\<not> sync_bad m x \<and> sync_accept (sync_step m x) tr)"

text \<open>The buffers with a \<^verbatim>\<open>sync\<close> semaphore that are queued or outstanding.\<close>

definition sync_bufs :: "'l::len sys \<Rightarrow> 'l bt_buf list" where
  "sync_bufs s =
     filter (\<lambda>b. sync b \<noteq> None)
       (cmd_queue (dev s) @ (case sent_cmd (dev s) of None \<Rightarrow> [] | Some c \<Rightarrow> [c]))"

text \<open>The invariants that tie the state to the two monitors.\<close>

definition credit_inv :: "bool \<Rightarrow> 'l::len sys \<Rightarrow> bool" where
  "credit_inv p s \<longleftrightarrow>
     (cmd_fiber s = Cmd_get_buf \<longrightarrow> ncmd_sem (dev s) = 0 \<and> ncmd (dev s) \<noteq> 0 \<and> \<not> p)
     \<and> (cmd_fiber s = Cmd_take_sem \<longrightarrow>
           (ncmd (dev s) = 0 \<longrightarrow> ncmd_sem (dev s) = 0) \<and> ncmd_sem (dev s) \<le> 1
           \<and> (p \<longrightarrow> ncmd_sem (dev s) = 0))
     \<and> (cmd_fiber s = Cmd_not_started \<longrightarrow> \<not> p)
     \<and> (init_task s = Init_not_started \<longrightarrow> cmd_fiber s = Cmd_not_started)"

definition sync_inv :: "(u16 \<times> bool) option \<Rightarrow> 'l::len sys \<Rightarrow> bool" where
  "sync_inv m s \<longleftrightarrow>
     (case waiting_for (init_task s) of
        None \<Rightarrow> sync_bufs s = [] \<and> m = None
      | Some (opc, q) \<Rightarrow>
          (\<exists>d. m = Some (opc, d) \<and> (sems s q \<noteq> 0 \<longrightarrow> d \<and> sync_bufs s = []))
          \<and> (\<forall>b \<in> set (sync_bufs s). sync b = Some q \<and> opcode b = opc)
          \<and> length (sync_bufs s) \<le> 1)"

subsection \<open>Auxiliary predicates\<close>

text \<open>Two states of \<^verbatim>\<open>dev\<close> agree on the fields that carry flow control and the queues.\<close>

definition same_control :: "'l::len bt_dev \<Rightarrow> 'l bt_dev \<Rightarrow> bool" where
  "same_control d d1 \<longleftrightarrow>
     ncmd d1 = ncmd d \<and> ncmd_sem d1 = ncmd_sem d \<and> sent_cmd d1 = sent_cmd d
     \<and> cmd_queue d1 = cmd_queue d \<and> rx_queue d1 = rx_queue d \<and> drv d1 = drv d"

text \<open>A step of the task leaves alone what the fibers own.\<close>

definition task_frame :: "'l::len sys \<Rightarrow> 'l sys \<Rightarrow> bool" where
  "task_frame s s1 \<longleftrightarrow>
     ncmd (dev s1) = ncmd (dev s) \<and> ncmd_sem (dev s1) = ncmd_sem (dev s)
     \<and> sent_cmd (dev s1) = sent_cmd (dev s) \<and> rx_queue (dev s1) = rx_queue (dev s)
     \<and> drv (dev s1) = drv (dev s) \<and> features (dev s1) = features (dev s)
     \<and> le_features (dev s1) = le_features (dev s) \<and> le_mtu (dev s1) = le_mtu (dev s)
     \<and> drv_sent s1 = drv_sent s \<and> cmd_fiber s1 = cmd_fiber s \<and> rx_fiber s1 = rx_fiber s
     \<and> buffers s1 = buffers s"

text \<open>What one step of the task does to the command queue and to the semaphores: an
  asynchronous send queues a buffer without \<^verbatim>\<open>sync\<close>, or nothing when the pool is empty;
  a synchronous send that reaches its wait has queued a buffer with \<^verbatim>\<open>sync\<close> and has
  initialised the semaphore; a step that does neither; a wait that returns.\<close>

definition async_sent :: "u16 \<Rightarrow> 'l::len sys \<Rightarrow> 'l sys \<Rightarrow> bool" where
  "async_sent opc s s1 \<longleftrightarrow>
     sems s1 = sems s
     \<and> (cmd_queue (dev s1) = cmd_queue (dev s)
         \<or> (\<exists>b. cmd_queue (dev s1) = cmd_queue (dev s) @ [b] \<and> opcode b = opc \<and> sync b = None))"

definition sync_queued :: "sem_ptr \<Rightarrow> u16 \<Rightarrow> 'l::len sys \<Rightarrow> 'l sys \<Rightarrow> bool" where
  "sync_queued p opc s s1 \<longleftrightarrow>
     sems s1 = (sems s)(p := 0)
     \<and> (\<exists>b. cmd_queue (dev s1) = cmd_queue (dev s) @ [b] \<and> opcode b = opc \<and> sync b = Some p)"

definition untouched :: "'l::len sys \<Rightarrow> 'l sys \<Rightarrow> bool" where
  "untouched s s1 \<longleftrightarrow> sems s1 = sems s \<and> cmd_queue (dev s1) = cmd_queue (dev s)"

definition woken :: "sem_ptr \<Rightarrow> 'l::len sys \<Rightarrow> 'l sys \<Rightarrow> bool" where
  "woken q s s1 \<longleftrightarrow>
     sems s q \<noteq> 0 \<and> sems s1 = (sems s)(q := sems s q - 1)
     \<and> cmd_queue (dev s1) = cmd_queue (dev s)"

text \<open>The statement \<^verbatim>\<open>hci_init\<close> goes on with when a send of its steps 1 to 4, 6 or 7
  has failed: the three asynchronous sends, the synchronous \<^verbatim>\<open>READ_BD_ADDR\<close>, the two LE
  reads.\<close>

fun after_failed_send :: "init_pc \<Rightarrow> init_pc option" where
  "after_failed_send Init_reset = Some Init_read_local_features"
| "after_failed_send Init_read_local_features = Some Init_read_local_version"
| "after_failed_send Init_read_local_version = Some Init_read_bd_addr"
| "after_failed_send Init_read_bd_addr = Some Init_le_check"
| "after_failed_send Init_le_read_local_features = Some Init_le_read_buffer_size"
| "after_failed_send Init_le_read_buffer_size = Some Init_set_event_mask"
| "after_failed_send pc = None"

text \<open>What a step of the receive fiber may do: it leaves the other threads, the command
  queue and the driver's record alone; the credit stays, or goes from 0 to 1 with one
  give of \<^verbatim>\<open>ncmd_sem\<close>; the outstanding command stays, or it is cleared on an event for its
  own opcode and its \<^verbatim>\<open>sync\<close> semaphore, if any, is given once.\<close>

definition fiber_frame :: "'l::len sys \<Rightarrow> 'l sys \<Rightarrow> bool" where
  "fiber_frame s s1 \<longleftrightarrow>
     cmd_fiber s1 = cmd_fiber s \<and> init_task s1 = init_task s \<and> drv_sent s1 = drv_sent s
     \<and> cmd_queue (dev s1) = cmd_queue (dev s)"

definition credit_moved :: "'l::len sys \<Rightarrow> 'l sys \<Rightarrow> bool" where
  "credit_moved s s1 \<longleftrightarrow>
     (ncmd (dev s1) = ncmd (dev s) \<and> ncmd_sem (dev s1) = ncmd_sem (dev s))
     \<or> (ncmd (dev s) = 0 \<and> ncmd (dev s1) = 1 \<and> ncmd_sem (dev s1) = Suc (ncmd_sem (dev s)))"

definition sent_moved :: "u16 option \<Rightarrow> 'l::len sys \<Rightarrow> 'l sys \<Rightarrow> bool" where
  "sent_moved evt_opc s s1 \<longleftrightarrow>
     (sent_cmd (dev s1) = sent_cmd (dev s) \<and> sems s1 = sems s)
     \<or> (\<exists>c. sent_cmd (dev s) = Some c \<and> evt_opc = Some (opcode c) \<and> sent_cmd (dev s1) = None
            \<and> sems s1 = (case sync c of None \<Rightarrow> sems s
                          | Some p \<Rightarrow> (sems s)(p := Suc (sems s p))))"

subsection \<open>Sample data\<close>

text \<open>Concrete buffers and states on which the theorems below are instantiated: buffers
  of 16 bytes whose \<^verbatim>\<open>len\<close> is a \<^verbatim>\<open>uint8_t\<close>.\<close>

definition buf0 :: "8 bt_buf" where
  "buf0 = \<lparr>sync = None, opcode = 0, type = BT_CMD, len = 0, data = 4, buf = replicate 16 0\<rparr>"

definition stale_buf :: "8 bt_buf" where
  "stale_buf = \<lparr>sync = Some 7, opcode = 0x1234, type = BT_ACL, len = 9, data = 2,
                 buf = replicate 16 0xff\<rparr>"

definition drv0 :: bt_driver where
  "drv0 = \<lparr>head_reserve = 1, open_err = None\<rparr>"

definition pool_state :: "8 sys" where
  "pool_state = (boot drv0 [])\<lparr>free_bufs := [stale_buf]\<rparr>"

text \<open>A \<^verbatim>\<open>RESET\<close> command as \<^verbatim>\<open>bt_hci_cmd_create\<close> builds it, and the state in which it is
  the outstanding command: the credit is used up.\<close>

definition sent_reset :: "8 bt_buf" where
  "sent_reset = \<lparr>sync = None, opcode = BT_HCI_OP_RESET, type = BT_CMD, len = 3, data = 1,
                  buf = [0, 0x03, 0x0c, 0, 0, 0, 0, 0, 0, 0, 0, 0, 0, 0, 0, 0]\<rparr>"

definition busy_state :: "8 sys" where
  "busy_state =
     (boot drv0 [])\<lparr>dev := (dev (boot drv0 []))\<lparr>sent_cmd := Some sent_reset\<rparr>,
                     cmd_fiber := Cmd_take_sem, rx_fiber := Rx_get_buf,
                     init_task := Init_read_local_features\<rparr>"

text \<open>Event packets as \<^verbatim>\<open>hci_event\<close> passes them on, the event header pulled: Command
  Complete for \<^verbatim>\<open>RESET\<close> with \<^verbatim>\<open>ncmd = 1\<close>; Command Status for \<^verbatim>\<open>RESET\<close> with
  \<^verbatim>\<open>ncmd = 1\<close>; Command Complete for opcode 0 with \<^verbatim>\<open>ncmd = 1\<close>; and (last) Command Status for opcode 0 with
  \<^verbatim>\<open>ncmd = 0\<close>.\<close>

definition cc_reset :: "8 bt_buf" where
  "cc_reset = \<lparr>sync = None, opcode = 0, type = BT_EVT, len = 4, data = 2,
                buf = [0x0e, 0x04, 0x01, 0x03, 0x0c, 0x00, 0, 0, 0, 0, 0, 0, 0, 0, 0, 0]\<rparr>"

definition cs_reset :: "8 bt_buf" where
  "cs_reset = \<lparr>sync = None, opcode = 0, type = BT_EVT, len = 4, data = 2,
                buf = [0x0f, 0x04, 0x00, 0x01, 0x03, 0x0c, 0, 0, 0, 0, 0, 0, 0, 0, 0, 0]\<rparr>"

definition cc_nop :: "8 bt_buf" where
  "cc_nop = \<lparr>sync = None, opcode = 0, type = BT_EVT, len = 4, data = 2,
              buf = [0x0e, 0x04, 0x01, 0x00, 0x00, 0x00, 0, 0, 0, 0, 0, 0, 0, 0, 0, 0]\<rparr>"

definition cs_nop :: "8 bt_buf" where
  "cs_nop = \<lparr>sync = None, opcode = 0, type = BT_EVT, len = 4, data = 2,
              buf = [0x0f, 0x04, 0x00, 0x00, 0x00, 0x00, 0, 0, 0, 0, 0, 0, 0, 0, 0, 0]\<rparr>"

text \<open>The response to \<^verbatim>\<open>READ_BUFFER_SIZE\<close> as its parser gets it, event header and
  prologue pulled: status 0, \<^verbatim>\<open>acl_max_len = 0x0136\<close>, \<^verbatim>\<open>sco_max_len = 0x40\<close>,
  \<^verbatim>\<open>acl_max_num = 0x0100\<close>, \<^verbatim>\<open>sco_max_num = 0x0008\<close>.\<close>

definition rp_buffer_size :: "8 bt_buf" where
  "rp_buffer_size = \<lparr>sync = None, opcode = 0, type = BT_EVT, len = 8, data = 5,
     buf = [0x0e, 0x0b, 0x01, 0x05, 0x10, 0x00, 0x36, 0x01, 0x40, 0x00, 0x01, 0x08, 0x00, 0, 0, 0]\<rparr>"

text \<open>Two ACL packets for handle 1 whose header announces two bytes of data: one carries
  two bytes, the other three. And a packet of two bytes only, in a buffer whose next two
  bytes are \<open>0xfe\<close> and 0.\<close>

definition acl_good :: "8 bt_buf" where
  "acl_good = \<lparr>sync = None, opcode = 0, type = BT_ACL, len = 6, data = 0,
     buf = [0x01, 0x20, 0x02, 0x00, 0xaa, 0xbb, 0, 0, 0, 0, 0, 0, 0, 0, 0, 0]\<rparr>"

definition acl_short :: "8 bt_buf" where
  "acl_short = \<lparr>sync = None, opcode = 0, type = BT_ACL, len = 2, data = 0,
     buf = [0x01, 0x20, 0xfe, 0x00, 0, 0, 0, 0, 0, 0, 0, 0, 0, 0, 0, 0]\<rparr>"

definition acl_bad :: "8 bt_buf" where
  "acl_bad = \<lparr>sync = None, opcode = 0, type = BT_ACL, len = 7, data = 0,
     buf = [0x01, 0x20, 0x02, 0x00, 0xaa, 0xbb, 0xcc, 0, 0, 0, 0, 0, 0, 0, 0, 0]\<rparr>"

text \<open>The task at the capability check of \<^verbatim>\<open>hci_init\<close>, with \<open>f\<close> in \<^verbatim>\<open>features[4]\<close>; and the
  task at the statement \<open>pc\<close> with an empty pool.\<close>

definition le_check_state :: "u8 \<Rightarrow> 8 sys" where
  "le_check_state f =
     (boot drv0 [])\<lparr>dev := (dev (boot drv0 []))\<lparr>features := [0, 0, 0, 0, f, 0, 0, 0]\<rparr>,
                     cmd_fiber := Cmd_take_sem, rx_fiber := Rx_get_buf,
                     init_task := Init_le_check\<rparr>"

definition empty_pool_state :: "init_pc \<Rightarrow> 8 sys" where
  "empty_pool_state pc =
     (boot drv0 [])\<lparr>cmd_fiber := Cmd_take_sem, rx_fiber := Rx_get_buf, init_task := pc\<rparr>"

text \<open>
  A system with five zeroed buffers of 16 bytes, and the packets of a stub controller
  (each a buffer as the driver hands it to \<^verbatim>\<open>bt_recv\<close>): Command Complete with
  \<^verbatim>\<open>ncmd = 1\<close> for opcode 0, for \<^verbatim>\<open>RESET\<close>, for \<^verbatim>\<open>READ_LOCAL_FEATURES\<close> with all
  feature bytes 0, for \<^verbatim>\<open>READ_LOCAL_VERSION_INFO\<close> (version 9, revision \<open>0x1234\<close>,
  manufacturer \<open>0x000f\<close>) and for \<^verbatim>\<open>READ_BD_ADDR\<close>.
\<close>

definition boot0 :: "8 sys" where
  "boot0 = boot drv0
     (replicate 5 \<lparr>sync = None, opcode = 0, type = BT_CMD, len = 0, data = 0,
                   buf = replicate 16 0\<rparr>)"

definition pkt :: "u8 \<Rightarrow> u8 list \<Rightarrow> 8 bt_buf" where
  "pkt n bytes = \<lparr>sync = None, opcode = 0, type = BT_EVT, len = n, data = 0, buf = bytes\<rparr>"

definition pkt_nop :: "8 bt_buf" where
  "pkt_nop = pkt 6 [0x0e, 0x04, 0x01, 0x00, 0x00, 0x00, 0, 0, 0, 0, 0, 0, 0, 0, 0, 0]"

definition pkt_reset :: "8 bt_buf" where
  "pkt_reset = pkt 6 [0x0e, 0x04, 0x01, 0x03, 0x0c, 0x00, 0, 0, 0, 0, 0, 0, 0, 0, 0, 0]"

definition pkt_features :: "8 bt_buf" where
  "pkt_features = pkt 14 [0x0e, 0x0c, 0x01, 0x03, 0x10, 0x00, 0, 0, 0, 0, 0, 0, 0, 0, 0, 0]"

definition pkt_version :: "8 bt_buf" where
  "pkt_version = pkt 14 [0x0e, 0x0c, 0x01, 0x01, 0x10, 0x00, 0x09, 0x34, 0x12, 0x09,
                         0x0f, 0x00, 0x00, 0x00, 0, 0]"

definition pkt_bd_addr :: "8 bt_buf" where
  "pkt_bd_addr = pkt 12 [0x0e, 0x0a, 0x01, 0x09, 0x10, 0x00, 0x66, 0x55, 0x44, 0x33,
                         0x22, 0x11, 0, 0, 0, 0]"

text \<open>Two runs. In the first the controller answers \<^verbatim>\<open>RESET\<close> with a Command Complete
  for opcode 0. The second is a bring-up against a controller that is not LE capable.\<close>

definition nop_run :: "8 bt_buf action list" where
  "nop_run = [Task 0, Task 0, Task 0, Cmd_fiber, Cmd_fiber, Recv pkt_nop, Rx_fiber,
              Cmd_fiber, Cmd_fiber]"

definition bringup_run :: "8 bt_buf action list" where
  "bringup_run =
     [Task 0, Task 0, Task 0, Task 0, Task 0,
      Cmd_fiber, Cmd_fiber, Recv pkt_reset, Rx_fiber,
      Cmd_fiber, Cmd_fiber, Recv pkt_features, Rx_fiber,
      Cmd_fiber, Cmd_fiber, Recv pkt_version, Rx_fiber,
      Cmd_fiber, Cmd_fiber, Recv pkt_bd_addr, Rx_fiber,
      Task 0, Task 0]"

text \<open>A bring-up against an LE-only controller (\<^verbatim>\<open>features[4] = 0x60\<close>): the four answers up
  to the barrier, then the answers to the two LE reads and to \<^verbatim>\<open>SET_EVENT_MASK\<close>.\<close>

definition pkt_features_le :: "8 bt_buf" where
  "pkt_features_le = pkt 14 [0x0e, 0x0c, 0x01, 0x03, 0x10, 0x00, 0, 0, 0, 0, 0x60, 0, 0, 0, 0, 0]"

definition pkt_le_features :: "8 bt_buf" where
  "pkt_le_features = pkt 14 [0x0e, 0x0c, 0x01, 0x03, 0x20, 0x00, 0x01, 0, 0, 0, 0, 0, 0, 0, 0, 0]"

definition pkt_le_buffer_size :: "8 bt_buf" where
  "pkt_le_buffer_size = pkt 9 [0x0e, 0x07, 0x01, 0x02, 0x20, 0x00, 27, 0, 4, 0, 0, 0, 0, 0, 0, 0]"

definition pkt_set_event_mask :: "8 bt_buf" where
  "pkt_set_event_mask = pkt 6 [0x0e, 0x04, 0x01, 0x01, 0x0c, 0x00, 0, 0, 0, 0, 0, 0, 0, 0, 0, 0]"

definition le_bringup_run :: "8 bt_buf action list" where
  "le_bringup_run =
     [Task 0, Task 0, Task 0, Task 0, Task 0,
      Cmd_fiber, Cmd_fiber, Recv pkt_reset, Rx_fiber,
      Cmd_fiber, Cmd_fiber, Recv pkt_features_le, Rx_fiber,
      Cmd_fiber, Cmd_fiber, Recv pkt_version, Rx_fiber,
      Cmd_fiber, Cmd_fiber, Recv pkt_bd_addr, Rx_fiber,
      Task 0, Task 0, Task 0, Task 0, Task 0,
      Cmd_fiber, Cmd_fiber, Recv pkt_le_features, Rx_fiber,
      Cmd_fiber, Cmd_fiber, Recv pkt_le_buffer_size, Rx_fiber,
      Cmd_fiber, Cmd_fiber, Recv pkt_set_event_mask, Rx_fiber,
      Task 0, Task 0]"

text \<open>
  A controller that withholds the credit: it answers \<^verbatim>\<open>RESET\<close> with a Command Complete
  whose \<^verbatim>\<open>ncmd\<close> is 0 and awards the credit afterwards, with a Command Complete for
  opcode 0 and \<^verbatim>\<open>ncmd = 1\<close> (\<open>pkt_nop\<close>) or with a Command Status for opcode 0 and
  \<^verbatim>\<open>ncmd = 1\<close>. In \<open>idle_run\<close> the task sends its four commands and waits, \<^verbatim>\<open>RESET\<close> goes
  to the driver and is completed, and the awarding event is handed to \<^verbatim>\<open>bt_recv\<close>.
\<close>

definition pkt_reset_no_credit :: "8 bt_buf" where
  "pkt_reset_no_credit = pkt 6 [0x0e, 0x04, 0x00, 0x03, 0x0c, 0x00, 0, 0, 0, 0, 0, 0, 0, 0, 0, 0]"

definition pkt_nop_status :: "8 bt_buf" where
  "pkt_nop_status = pkt 6 [0x0f, 0x04, 0x00, 0x01, 0x00, 0x00, 0, 0, 0, 0, 0, 0, 0, 0, 0, 0]"

definition idle_run :: "8 bt_buf action list" where
  "idle_run =
     [Task 0, Task 0, Task 0, Task 0, Task 0,
      Cmd_fiber, Cmd_fiber, Recv pkt_reset_no_credit, Rx_fiber, Recv pkt_nop]"

text \<open>
  Bring-up with a pool that runs short. \<open>short_pool n\<close> is the state in which \<^verbatim>\<open>bt_init\<close>
  calls \<^verbatim>\<open>hci_init\<close>, with only \<open>n\<close> of the buffers free (the others are in use, for
  instance by the driver for packets it is receiving). In \<open>starved_run\<close> the controller
  answers every command that reaches it. \<open>starved_le_state\<close> is the task at the first
  statement of \<^verbatim>\<open>hci_init\<close>, entered again through \<^verbatim>\<open>bt_hci_reset\<close> when the LE bit of the
  features is already recorded and the pool is empty.
\<close>

definition short_pool :: "nat \<Rightarrow> 8 sys" where
  "short_pool n = (bt_init boot0)\<lparr>free_bufs := take n (free_bufs (bt_init boot0))\<rparr>"

definition starved_run :: "8 bt_buf action list" where
  "starved_run =
     [Task 0, Task 0,
      Cmd_fiber, Cmd_fiber, Recv pkt_reset, Rx_fiber,
      Task 0, Task 0,
      Cmd_fiber, Cmd_fiber, Recv pkt_version, Rx_fiber,
      Cmd_fiber, Cmd_fiber, Recv pkt_bd_addr, Rx_fiber,
      Task 0, Task 0]"

definition starved_le_state :: "8 sys" where
  "starved_le_state =
     (empty_pool_state Init_reset)
       \<lparr>dev := (dev (empty_pool_state Init_reset))\<lparr>features := [0, 0, 0, 0, 0x40, 0, 0, 0]\<rparr>\<rparr>"

section \<open>Properties\<close>

subsection \<open>Packet view: head-room, payload and tail-room\<close>

lemma unat_ucast_len_size_t:
  "unat (x :: 'l::len word) < 2 ^ 32 \<Longrightarrow> unat (ucast x :: size_t) = unat x"
  by (simp add: unsigned_ucast_eq take_bit_nat_eq_self)

lemma tailroom_unat:
  assumes "buf_inv (b :: 'l::len bt_buf)"
  shows "unat (bt_buf_tailroom b) = length (buf b) - unat (data b) - unat (len b)"
proof -
  let ?c = "length (buf b)"
  have c: "?c < 2 ^ 32" and le: "unat (data b) + unat (len b) \<le> ?c"
    using assms by (simp_all add: buf_inv_def)
  have l32: "unat (len b) < 2 ^ 32" using le c by linarith
  have uc: "unat (ucast (len b) :: size_t) = unat (len b)"
    using l32 by (rule unat_ucast_len_size_t)
  have oc: "unat (of_nat ?c :: size_t) = ?c"
    using c by (simp add: unat_of_nat)
  have d: "data b \<le> (of_nat ?c :: size_t)"
    using le oc by (simp add: word_le_nat_alt)
  have s1: "unat ((of_nat ?c :: size_t) - data b) = ?c - unat (data b)"
    using d oc by (simp add: unat_sub)
  have d2: "(ucast (len b) :: size_t) \<le> of_nat ?c - data b"
    using le s1 uc by (simp add: word_le_nat_alt)
  show ?thesis
    unfolding bt_buf_tailroom_def bt_buf_headroom_def
    using d2 s1 uc by (simp add: unat_sub)
qed

lemma buf_inv_room_sum:
  assumes "buf_inv (b :: 'l::len bt_buf)"
  shows "room_sum b"
proof -
  have le: "unat (data b) + unat (len b) \<le> length (buf b)"
    using assms by (simp add: buf_inv_def)
  have t: "unat (bt_buf_tailroom b) = length (buf b) - unat (data b) - unat (len b)"
    using assms by (rule tailroom_unat)
  have h: "bt_buf_headroom b = data b" by (simp add: bt_buf_headroom_def)
  have a: "unat (bt_buf_headroom b) + unat (len b) + unat (bt_buf_tailroom b) = length (buf b)"
    unfolding h t using le by linarith
  have "int (unat (bt_buf_tailroom b))
        = int (length (buf b)) - int (unat (data b)) - int (unat (len b))"
    unfolding t using le by linarith
  then have c: "uint (bt_buf_tailroom b)
        = int (length (buf b)) - uint (bt_buf_headroom b) - uint (len b)"
    unfolding h by (simp only: uint_nat)
  show ?thesis
    unfolding room_sum_def using a c h by simp
qed

lemma unat_ucast_le: "unat (ucast (n :: size_t) :: 'l::len word) \<le> unat n"
  by (simp add: unsigned_ucast_eq)

lemma unat_len_add_le: "unat ((x :: 'l::len word) + ucast (n :: size_t)) \<le> unat x + unat n"
proof -
  have "unat (x + ucast n) \<le> unat x + unat (ucast n :: 'l word)"
    by (simp add: unat_plus_if')
  also have "\<dots> \<le> unat x + unat n"
    using unat_ucast_le [of n] by simp
  finally show ?thesis .
qed

lemma add_inv:
  assumes "buf_inv (b :: 'l::len bt_buf)" and "n \<le> bt_buf_tailroom b"
  shows "buf_inv (snd (bt_buf_add b n))"
proof -
  have "unat n \<le> length (buf b) - unat (data b) - unat (len b)"
    using assms tailroom_unat [OF assms(1)] by (simp add: word_le_nat_alt)
  moreover have "unat (data b) + unat (len b) \<le> length (buf b)"
    using assms(1) by (simp add: buf_inv_def)
  ultimately have "unat (data b) + (unat (len b) + unat n) \<le> length (buf b)" by linarith
  then have "unat (data b) + unat (len b + ucast n) \<le> length (buf b)"
    using unat_len_add_le [of "len b" n] by linarith
  then show ?thesis
    using assms(1) by (simp add: buf_inv_def bt_buf_add_def)
qed

lemma push_inv:
  assumes "buf_inv (b :: 'l::len bt_buf)" and "n \<le> bt_buf_headroom b"
  shows "buf_inv (snd (bt_buf_push b n))"
proof -
  have n: "n \<le> data b" using assms(2) by (simp add: bt_buf_headroom_def)
  then have d: "unat (data b - n) = unat (data b) - unat n" by (rule unat_sub)
  have nd: "unat n \<le> unat (data b)" using n by (simp add: word_le_nat_alt)
  have "unat (data b) + unat (len b) \<le> length (buf b)"
    using assms(1) by (simp add: buf_inv_def)
  then have "unat (data b - n) + (unat (len b) + unat n) \<le> length (buf b)"
    using d nd by linarith
  then have "unat (data b - n) + unat (len b + ucast n) \<le> length (buf b)"
    using unat_len_add_le [of "len b" n] by linarith
  then show ?thesis
    using assms(1) by (simp add: buf_inv_def bt_buf_push_def)
qed

lemma pull_inv:
  assumes "buf_inv (b :: 'l::len bt_buf)" and "unat n \<le> unat (len b)"
  shows "buf_inv (snd (bt_buf_pull b n))"
proof -
  have le: "unat (data b) + unat (len b) \<le> length (buf b)" and c: "length (buf b) < 2 ^ 32"
    using assms(1) by (simp_all add: buf_inv_def)
  have fit: "unat n < 2 ^ LENGTH('l)"
    using assms(2) unsigned_less [of "len b"] by (metis le_less_trans)
  have un: "unat (ucast n :: 'l word) = unat n"
    using fit by (simp add: unsigned_ucast_eq take_bit_nat_eq_self)
  have nl: "(ucast n :: 'l word) \<le> len b"
    using un assms(2) by (simp add: word_le_nat_alt)
  have l: "unat (len b - ucast n) = unat (len b) - unat n"
    using nl un by (simp add: unat_sub)
  have "unat (data b) + unat n < 2 ^ 32" using le c assms(2) by linarith
  then have d: "unat (data b + n) = unat (data b) + unat n"
    using unat_add_lem [of "data b" n] by simp
  have "unat (data b + n) + unat (len b - ucast n) \<le> length (buf b)"
    using d l le assms(2) by linarith
  then show ?thesis
    using c by (simp add: buf_inv_def bt_buf_pull_def)
qed

lemma op_apply_inv: "buf_inv b \<Longrightarrow> op_pre x b \<Longrightarrow> buf_inv (op_apply x b)"
  by (cases x) (simp_all add: add_inv push_inv pull_inv)

lemma op_apply_buf: "buf (op_apply x b) = buf b"
  by (cases x) (simp_all add: bt_buf_add_def bt_buf_push_def bt_buf_pull_def)

lemma ops_states_inv:
  "buf_inv b \<Longrightarrow> ops_pre xs b \<Longrightarrow> b' \<in> set (ops_states xs b) \<Longrightarrow>
     buf_inv b' \<and> length (buf b') = length (buf b)"
proof (induction xs arbitrary: b)
  case Nil
  then show ?case by simp
next
  case (Cons x xs)
  have step: "buf_inv (op_apply x b)"
    using Cons.prems by (simp add: op_apply_inv)
  show ?case
  proof (cases "b' = op_apply x b")
    case True
    then show ?thesis using step by (simp add: op_apply_buf)
  next
    case False
    then have "b' \<in> set (ops_states xs (op_apply x b))" using Cons.prems by simp
    then have "buf_inv b' \<and> length (buf b') = length (buf (op_apply x b))"
      using Cons.IH [OF step] Cons.prems by simp
    then show ?thesis by (simp add: op_apply_buf)
  qed
qed

text \<open>
  C8. Start from a buffer whose payload window lies inside its array, and apply any
  sequence of \<^verbatim>\<open>bt_buf_add\<close>, \<^verbatim>\<open>bt_buf_push\<close> and \<^verbatim>\<open>bt_buf_pull\<close>, each called with its
  precondition (tail-room at least \<open>n\<close>, head-room at least \<open>n\<close>, \<^verbatim>\<open>len\<close> at least \<open>n\<close>).
  Then after each operation head-room + \<^verbatim>\<open>len\<close> + tail-room is the size of the array
  \<^verbatim>\<open>BT_BUF_MAX_DATA\<close>, as numbers; head-room is \<^verbatim>\<open>data - buf\<close>, and tail-room is the capacity
  minus head-room minus \<^verbatim>\<open>len\<close> with no wrap-around, so neither is negative. The capacity
  itself never changes.
\<close>

theorem view_ops_keep_capacity:
  assumes "buf_inv b" and "ops_pre xs b" and "b' \<in> set (ops_states xs b)"
  shows "room_sum b' \<and> length (buf b') = length (buf b)"
  using ops_states_inv [OF assms] buf_inv_room_sum by blast

theorem view_ops_keep_capacity_witness:
  "buf_inv buf0 \<and> ops_pre [Add 7, Push 2, Pull 5] buf0
   \<and> buf0\<lparr>len := 4, data := 7\<rparr> \<in> set (ops_states [Add 7, Push 2, Pull 5] buf0)
   \<and> room_sum (buf0\<lparr>len := 4, data := 7\<rparr>)
   \<and> length (buf (buf0\<lparr>len := 4, data := 7\<rparr>)) = length (buf buf0)"
proof -
  have i: "buf_inv buf0" by (simp add: buf0_def buf_inv_def)
  have p: "ops_pre [Add 7, Push 2, Pull 5] buf0"
    by (simp add: buf0_def bt_buf_add_def bt_buf_push_def bt_buf_pull_def
        bt_buf_tailroom_def bt_buf_headroom_def)
  have m: "buf0\<lparr>len := 4, data := 7\<rparr> \<in> set (ops_states [Add 7, Push 2, Pull 5] buf0)"
    by (simp add: buf0_def bt_buf_add_def bt_buf_push_def bt_buf_pull_def)
  show ?thesis
    using i p m view_ops_keep_capacity [OF i p m] by simp
qed

subsection \<open>Acquiring a buffer\<close>

lemma store_keeps_fields:
  "store b p v = Some b1 \<Longrightarrow>
     type b1 = type b \<and> opcode b1 = opcode b \<and> sync b1 = sync b \<and> len b1 = len b
     \<and> data b1 = data b \<and> length (buf b1) = length (buf b)"
  by (auto simp: store_def split: if_splits)

lemma store_le16_keeps_fields:
  "store_le16 b p v = Some b1 \<Longrightarrow>
     type b1 = type b \<and> opcode b1 = opcode b \<and> sync b1 = sync b \<and> len b1 = len b
     \<and> data b1 = data b \<and> length (buf b1) = length (buf b)"
  by (auto simp: store_le16_def split: bind_splits dest!: store_keeps_fields)

lemma bt_hci_cmd_create_Some:
  assumes "bt_hci_cmd_create opc pl s = Some (Some b1, s1)"
  shows "type b1 = BT_CMD \<and> opcode b1 = opc \<and> sync b1 = None"
proof -
  obtain d where d: "drv (dev s) = Some d"
    using assms by (cases "drv (dev s)") (simp_all add: bt_hci_cmd_create_def)
  obtain b s0 where g: "bt_buf_get_reserve (head_reserve d) s = (Some b, s0)"
    using assms d by (cases "bt_buf_get_reserve (head_reserve d) s")
      (auto simp: bt_hci_cmd_create_def split: option.splits)
  let ?b2 = "snd (bt_buf_add (b\<lparr>type := BT_CMD, opcode := opc, sync := None\<rparr>) sizeof_cmd_hdr)"
  let ?h = "fst (bt_buf_add (b\<lparr>type := BT_CMD, opcode := opc, sync := None\<rparr>) sizeof_cmd_hdr)"
  obtain b3 where b3: "store_le16 ?b2 ?h opc = Some b3" and b4: "store b3 (?h + 2) pl = Some b1"
    using assms d g
    by (auto simp: bt_hci_cmd_create_def Let_def split_beta split: bind_splits)
  have "type ?b2 = BT_CMD \<and> opcode ?b2 = opc \<and> sync ?b2 = None"
    by (simp add: bt_buf_add_def)
  then show ?thesis
    using store_le16_keeps_fields [OF b3] store_keeps_fields [OF b4] by simp
qed

text \<open>
  C9. \<^verbatim>\<open>bt_buf_get_reserve\<close> takes the oldest free buffer and sets \<^verbatim>\<open>data\<close>, \<^verbatim>\<open>len\<close> and
  \<^verbatim>\<open>sync\<close>, nothing else: \<^verbatim>\<open>type\<close> and \<^verbatim>\<open>opcode\<close> (and the bytes) are what the previous
  user of the buffer left there. A buffer that \<^verbatim>\<open>bt_hci_cmd_create\<close> returns has its type
  set to \<^verbatim>\<open>BT_CMD\<close> and its opcode to the one asked for.
\<close>

theorem get_reserve_leaves_type_opcode:
  assumes "free_bufs s = b # bs"
  shows "bt_buf_get_reserve r s = (Some (b\<lparr>data := r, len := 0, sync := None\<rparr>), s\<lparr>free_bufs := bs\<rparr>)
         \<and> type (the (fst (bt_buf_get_reserve r s))) = type b
         \<and> opcode (the (fst (bt_buf_get_reserve r s))) = opcode b
         \<and> buf (the (fst (bt_buf_get_reserve r s))) = buf b
         \<and> (bt_hci_cmd_create opc pl s = Some (Some b1, s1)
                \<longrightarrow> type b1 = BT_CMD \<and> opcode b1 = opc)"
  using assms bt_hci_cmd_create_Some [of opc pl s b1 s1]
  by (auto simp: bt_buf_get_reserve_def)

theorem get_reserve_leaves_type_opcode_witness:
  "free_bufs pool_state = [stale_buf]
   \<and> type (the (fst (bt_buf_get_reserve 3 pool_state))) = BT_ACL
   \<and> opcode (the (fst (bt_buf_get_reserve 3 pool_state))) = 0x1234
   \<and> (\<exists>b1 s1. bt_hci_cmd_create BT_HCI_OP_RESET 0 pool_state = Some (Some b1, s1)
        \<and> type b1 = BT_CMD \<and> opcode b1 = BT_HCI_OP_RESET)"
proof -
  have f: "free_bufs pool_state = stale_buf # []" by (simp add: pool_state_def)
  have "\<exists>b1 s1. bt_hci_cmd_create BT_HCI_OP_RESET 0 pool_state = Some (Some b1, s1)"
    by (simp add: bt_hci_cmd_create_def pool_state_def boot_def drv0_def bt_buf_get_reserve_def
        stale_buf_def bt_buf_add_def sizeof_cmd_hdr_def store_le16_def store_def)
  then obtain b1 s1 where
    b1: "bt_hci_cmd_create BT_HCI_OP_RESET 0 pool_state = Some (Some b1, s1)" by blast
  show ?thesis
    using f b1 get_reserve_leaves_type_opcode [OF f, of 3 BT_HCI_OP_RESET 0 b1 s1]
    by (simp add: stale_buf_def)
qed

text \<open>A buffer acquired with a reserve that fits its array satisfies the invariant of the
  packet view.\<close>

lemma get_reserve_buf_inv:
  assumes "free_bufs s = b # bs" and "unat r \<le> length (buf b)" and "length (buf b) < 2 ^ 32"
  shows "buf_inv (the (fst (bt_buf_get_reserve r s)))"
  using assms by (simp add: bt_buf_get_reserve_def buf_inv_def)

subsection \<open>What the response parsers and the correlator leave alone\<close>

lemma parser_frames:
  "hci_reset_complete b d = Some d1 \<Longrightarrow> same_control d d1"
  "hci_read_local_ver_complete b d = Some d1 \<Longrightarrow> same_control d d1"
  "hci_read_features_complete b d = Some d1 \<Longrightarrow> same_control d d1"
  "hci_read_buffer_size_complete b d = Some d1 \<Longrightarrow> same_control d d1"
  "hci_read_bdaddr_complete b d = Some d1 \<Longrightarrow> same_control d d1"
  "hci_le_read_buffer_size_complete b d = Some d1 \<Longrightarrow> same_control d d1"
  "hci_le_read_features_complete b d = Some d1 \<Longrightarrow> same_control d d1"
  unfolding hci_reset_complete_def hci_read_local_ver_complete_def hci_read_features_complete_def
    hci_read_buffer_size_complete_def hci_read_bdaddr_complete_def
    hci_le_read_buffer_size_complete_def hci_le_read_features_complete_def Let_def same_control_def
  by (auto split: bind_splits if_splits)

text \<open>The fields of \<^verbatim>\<open>dev\<close> that the command and receive paths use for flow control.\<close>

lemma switch_frame:
  assumes "hci_cmd_complete_switch opc b s = Some s1"
  shows "ncmd (dev s1) = ncmd (dev s) \<and> ncmd_sem (dev s1) = ncmd_sem (dev s)
       \<and> sent_cmd (dev s1) = sent_cmd (dev s) \<and> cmd_queue (dev s1) = cmd_queue (dev s)
       \<and> rx_queue (dev s1) = rx_queue (dev s) \<and> drv (dev s1) = drv (dev s)
       \<and> free_bufs s1 = free_bufs s \<and> sems s1 = sems s \<and> drv_sent s1 = drv_sent s
       \<and> buffers s1 = buffers s
       \<and> cmd_fiber s1 = cmd_fiber s \<and> rx_fiber s1 = rx_fiber s \<and> init_task s1 = init_task s"
  using assms unfolding hci_cmd_complete_switch_def with_dev_def BT_ERR_def
  by (auto split: if_splits bind_splits dest!: parser_frames simp: same_control_def)

lemma switch_errs:
  assumes "hci_cmd_complete_switch opc b s = Some s1"
  shows "errs s1 = errs s \<or> errs s1 = errs s @ [Unknown_opcode opc]"
  using assms unfolding hci_cmd_complete_switch_def with_dev_def BT_ERR_def
  by (auto split: if_splits bind_splits)

lemma hci_cmd_done_mismatch:
  "sent_cmd (dev s) = Some c \<Longrightarrow> opcode c \<noteq> opc \<Longrightarrow>
     hci_cmd_done opc s = Some (BT_ERR (Unexpected_completion opc) s)"
  by (simp add: hci_cmd_done_def)

lemma hci_cmd_done_credit:
  "hci_cmd_done opc s = Some s1 \<Longrightarrow>
     ncmd (dev s1) = ncmd (dev s) \<and> ncmd_sem (dev s1) = ncmd_sem (dev s)"
  by (auto simp: hci_cmd_done_def BT_ERR_def bt_buf_put_def nano_sem_give_def Let_def
      split: option.splits if_splits)

lemma ncmd_refill_credit:
  "ncmd (dev (ncmd_refill n s)) = (if n \<noteq> 0 \<and> ncmd (dev s) = 0 then 1 else ncmd (dev s))
   \<and> ncmd_sem (dev (ncmd_refill n s))
       = (if n \<noteq> 0 \<and> ncmd (dev s) = 0 then Suc (ncmd_sem (dev s)) else ncmd_sem (dev s))"
  by (simp add: ncmd_refill_def)

lemma pull_load: "load (snd (bt_buf_pull b n)) p = load b p"
  by (simp add: bt_buf_pull_def load_def)

lemma hci_cmd_complete_parts:
  assumes "hci_cmd_complete b s = Some (b1, s3)"
  obtains opc s1 s2 n where
    "load_le16 b (data b + 1) = Some opc"
    "b1 = snd (bt_buf_pull b sizeof_evt_cmd_complete)"
    "hci_cmd_complete_switch opc b1 s = Some s1"
    "hci_cmd_done opc s1 = Some s2"
    "load b (data b) = Some n"
    "s3 = ncmd_refill n s2"
  using assms unfolding hci_cmd_complete_def Let_def
  by (auto split: bind_splits simp: pull_load)

lemma hci_cmd_status_parts:
  assumes "hci_cmd_status b s = Some (b1, s3)"
  obtains opc s2 n where
    "load_le16 b (data b + 2) = Some opc"
    "b1 = snd (bt_buf_pull b sizeof_evt_cmd_status)"
    "hci_cmd_done opc (BT_ERR (Unknown_opcode opc) s) = Some s2"
    "load b (data b + 1) = Some n"
    "s3 = ncmd_refill n s2"
  using assms unfolding hci_cmd_status_def Let_def
  by (auto split: bind_splits simp: pull_load)

subsection \<open>Credit refill\<close>

text \<open>
  When \<^verbatim>\<open>hci_cmd_complete\<close> or \<^verbatim>\<open>hci_cmd_status\<close> returns from an event whose \<^verbatim>\<open>ncmd\<close>
  field is \<open>n\<close>: if \<open>n > 0\<close> and \<^verbatim>\<open>dev.ncmd\<close> was 0, then \<^verbatim>\<open>dev.ncmd\<close> is 1 and
  \<^verbatim>\<open>ncmd_sem\<close> has been given once; in every other case both are as they were. The
  handlers return only when a command is outstanding (see below).
\<close>

lemma credit_refill_rule:
  "(hci_cmd_complete b s = Some (b1, s1) \<longrightarrow>
      (\<exists>n. load b (data b) = Some n
         \<and> ncmd (dev s1) = (if n \<noteq> 0 \<and> ncmd (dev s) = 0 then 1 else ncmd (dev s))
         \<and> ncmd_sem (dev s1)
             = (if n \<noteq> 0 \<and> ncmd (dev s) = 0 then Suc (ncmd_sem (dev s)) else ncmd_sem (dev s))))
   \<and> (hci_cmd_status b s = Some (b1, s1) \<longrightarrow>
      (\<exists>n. load b (data b + 1) = Some n
         \<and> ncmd (dev s1) = (if n \<noteq> 0 \<and> ncmd (dev s) = 0 then 1 else ncmd (dev s))
         \<and> ncmd_sem (dev s1)
             = (if n \<noteq> 0 \<and> ncmd (dev s) = 0 then Suc (ncmd_sem (dev s)) else ncmd_sem (dev s))))"
proof (intro conjI impI)
  assume "hci_cmd_complete b s = Some (b1, s1)"
  then obtain opc t1 t2 n where
    sw: "hci_cmd_complete_switch opc (snd (bt_buf_pull b sizeof_evt_cmd_complete)) s = Some t1"
    and dn: "hci_cmd_done opc t1 = Some t2"
    and n: "load b (data b) = Some n" and s1: "s1 = ncmd_refill n t2"
    by (auto elim!: hci_cmd_complete_parts)
  have "ncmd (dev t2) = ncmd (dev s) \<and> ncmd_sem (dev t2) = ncmd_sem (dev s)"
    using switch_frame [OF sw] hci_cmd_done_credit [OF dn] by simp
  then show "\<exists>n. load b (data b) = Some n
         \<and> ncmd (dev s1) = (if n \<noteq> 0 \<and> ncmd (dev s) = 0 then 1 else ncmd (dev s))
         \<and> ncmd_sem (dev s1)
             = (if n \<noteq> 0 \<and> ncmd (dev s) = 0 then Suc (ncmd_sem (dev s)) else ncmd_sem (dev s))"
    using n s1 ncmd_refill_credit [of n t2] by simp
next
  assume "hci_cmd_status b s = Some (b1, s1)"
  then obtain opc t2 n where
    dn: "hci_cmd_done opc (BT_ERR (Unknown_opcode opc) s) = Some t2"
    and n: "load b (data b + 1) = Some n" and s1: "s1 = ncmd_refill n t2"
    by (auto elim!: hci_cmd_status_parts)
  have "ncmd (dev t2) = ncmd (dev s) \<and> ncmd_sem (dev t2) = ncmd_sem (dev s)"
    using hci_cmd_done_credit [OF dn] by (simp add: BT_ERR_def)
  then show "\<exists>n. load b (data b + 1) = Some n
         \<and> ncmd (dev s1) = (if n \<noteq> 0 \<and> ncmd (dev s) = 0 then 1 else ncmd (dev s))
         \<and> ncmd_sem (dev s1)
             = (if n \<noteq> 0 \<and> ncmd (dev s) = 0 then Suc (ncmd_sem (dev s)) else ncmd_sem (dev s))"
    using n s1 ncmd_refill_credit [of n t2] by simp
qed

lemmas sample_defs =
  busy_state_def boot_def drv0_def sent_reset_def cc_reset_def cs_reset_def cc_nop_def

lemmas handler_defs =
  hci_cmd_complete_def hci_cmd_status_def hci_cmd_complete_switch_def hci_cmd_done_def
  ncmd_refill_def with_dev_def hci_reset_complete_def BT_ERR_def bt_buf_put_def
  bt_buf_pull_def load_le16_def load_def nano_sem_give_def
  sizeof_evt_cmd_complete_def sizeof_evt_cmd_status_def

lemmas const_defs =
  BT_HCI_OP_SET_EVENT_MASK_def BT_HCI_OP_RESET_def BT_HCI_OP_LE_WRITE_LE_HOST_SUPP_def
  BT_HCI_OP_READ_LOCAL_VERSION_INFO_def BT_HCI_OP_READ_LOCAL_FEATURES_def
  BT_HCI_OP_READ_BUFFER_SIZE_def BT_HCI_OP_READ_BD_ADDR_def BT_HCI_OP_LE_READ_BUFFER_SIZE_def
  BT_HCI_OP_LE_READ_LOCAL_FEATURES_def BT_HCI_EVT_CMD_COMPLETE_def BT_HCI_EVT_CMD_STATUS_def
  BT_LMP_NO_BREDR_def BT_LMP_LE_def BT_HCI_LE_ENCRYPTION_def

lemma cc_reset_runs: "\<exists>b1 s1. hci_cmd_complete cc_reset busy_state = Some (b1, s1)"
  by (simp add: sample_defs handler_defs const_defs Let_def)

lemma cs_reset_runs: "\<exists>b1 s1. hci_cmd_status cs_reset busy_state = Some (b1, s1)"
  by (simp add: sample_defs handler_defs const_defs Let_def)

lemma credit_refill_rule_sample:
  "(\<exists>b1 s1. hci_cmd_complete cc_reset busy_state = Some (b1, s1)
       \<and> load cc_reset (data cc_reset) = Some 1
       \<and> ncmd (dev busy_state) = 0 \<and> ncmd_sem (dev busy_state) = 0
       \<and> ncmd (dev s1) = 1 \<and> ncmd_sem (dev s1) = 1)
   \<and> (\<exists>b1 s1. hci_cmd_status cs_reset busy_state = Some (b1, s1)
       \<and> load cs_reset (data cs_reset + 1) = Some 1
       \<and> ncmd (dev s1) = 1 \<and> ncmd_sem (dev s1) = 1)"
proof -
  obtain b1 s1 where c: "hci_cmd_complete cc_reset busy_state = Some (b1, s1)"
    using cc_reset_runs by blast
  obtain b2 s2 where d: "hci_cmd_status cs_reset busy_state = Some (b2, s2)"
    using cs_reset_runs by blast
  have l: "load cc_reset (data cc_reset) = Some 1" "load cs_reset (data cs_reset + 1) = Some 1"
    by (simp_all add: cc_reset_def cs_reset_def load_def)
  have z: "ncmd (dev busy_state) = 0" "ncmd_sem (dev busy_state) = 0"
    by (simp_all add: busy_state_def boot_def)
  have "ncmd (dev s1) = 1 \<and> ncmd_sem (dev s1) = 1"
    using credit_refill_rule [of cc_reset busy_state b1 s1] c l z by simp
  moreover have "ncmd (dev s2) = 1 \<and> ncmd_sem (dev s2) = 1"
    using credit_refill_rule [of cs_reset busy_state b2 s2] d l z by simp
  ultimately show ?thesis using c d l z by simp
qed

subsection \<open>Unexpected completions\<close>

text \<open>With no command outstanding, \<^verbatim>\<open>hci_cmd_done\<close> reads through a NULL pointer.\<close>

lemma hci_cmd_done_null: "sent_cmd (dev s) = None \<Longrightarrow> hci_cmd_done opc s = None"
  by (simp add: hci_cmd_done_def)

lemma BT_ERR_frame:
  "dev (BT_ERR e s) = dev s \<and> free_bufs (BT_ERR e s) = free_bufs s \<and> sems (BT_ERR e s) = sems s
   \<and> errs (BT_ERR e s) = errs s @ [e]"
  by (simp add: BT_ERR_def)

lemma ncmd_refill_frame:
  "sent_cmd (dev (ncmd_refill n s)) = sent_cmd (dev s) \<and> free_bufs (ncmd_refill n s) = free_bufs s
   \<and> sems (ncmd_refill n s) = sems s \<and> errs (ncmd_refill n s) = errs s"
  by (simp add: ncmd_refill_def)

lemma mismatch_complete:
  assumes c: "sent_cmd (dev s) = Some c" and ne: "opcode c \<noteq> opc"
    and run: "hci_cmd_complete b s = Some (b1, s1)"
    and opc: "load_le16 b (data b + 1) = Some opc"
  shows "sent_cmd (dev s1) = Some c \<and> free_bufs s1 = free_bufs s \<and> sems s1 = sems s
       \<and> last (errs s1) = Unexpected_completion opc"
proof -
  from run opc obtain t1 t2 n where
    sw: "hci_cmd_complete_switch opc (snd (bt_buf_pull b sizeof_evt_cmd_complete)) s = Some t1"
    and dn: "hci_cmd_done opc t1 = Some t2"
    and s1: "s1 = ncmd_refill n t2"
    by (auto elim!: hci_cmd_complete_parts)
  have f: "sent_cmd (dev t1) = Some c" "free_bufs t1 = free_bufs s" "sems t1 = sems s"
    using switch_frame [OF sw] c by simp_all
  have t2: "t2 = BT_ERR (Unexpected_completion opc) t1"
    using hci_cmd_done_mismatch [OF f(1) ne] dn by simp
  show ?thesis
    unfolding s1 t2 using f by (simp add: ncmd_refill_frame BT_ERR_frame)
qed

lemma mismatch_status:
  assumes c: "sent_cmd (dev s) = Some c" and ne: "opcode c \<noteq> opc"
    and run: "hci_cmd_status b s = Some (b1, s1)"
    and opc: "load_le16 b (data b + 2) = Some opc"
  shows "sent_cmd (dev s1) = Some c \<and> free_bufs s1 = free_bufs s \<and> sems s1 = sems s
       \<and> last (errs s1) = Unexpected_completion opc"
proof -
  from run opc obtain t2 n where
    dn: "hci_cmd_done opc (BT_ERR (Unknown_opcode opc) s) = Some t2"
    and s1: "s1 = ncmd_refill n t2"
    by (auto elim!: hci_cmd_status_parts)
  have f: "sent_cmd (dev (BT_ERR (Unknown_opcode opc) s)) = Some c"
    using c by (simp add: BT_ERR_frame)
  have t2: "t2 = BT_ERR (Unexpected_completion opc) (BT_ERR (Unknown_opcode opc) s)"
    using hci_cmd_done_mismatch [OF f ne] dn by simp
  show ?thesis
    unfolding s1 t2 using c by (simp add: ncmd_refill_frame BT_ERR_frame)
qed

text \<open>
  C1, as the code has it. A command \<open>c\<close> is outstanding and a Command Complete or Command
  Status event arrives for another opcode. Then \<^verbatim>\<open>hci_cmd_done\<close> logs the unexpected
  completion and does nothing else; after the event handler \<^verbatim>\<open>sent_cmd\<close> is still \<open>c\<close>, no
  buffer has been put back into the pool, no semaphore of a synchronous caller has been
  given, and the error is the last line logged. The credit is not part of this: the
  handler refills it whether the opcode matched or not (\<^verbatim>\<open>ncmd\<close> becomes 1 and
  \<^verbatim>\<open>ncmd_sem\<close> is given once if the event's \<^verbatim>\<open>ncmd\<close> is not 0 and \<^verbatim>\<open>dev.ncmd\<close> is 0).
\<close>

theorem unexpected_completion_logged_only:
  assumes "sent_cmd (dev s) = Some c" and "opcode c \<noteq> opc"
  shows "hci_cmd_done opc s = Some (BT_ERR (Unexpected_completion opc) s)
       \<and> (hci_cmd_complete b s = Some (b1, s1) \<and> load_le16 b (data b + 1) = Some opc \<longrightarrow>
            sent_cmd (dev s1) = Some c \<and> free_bufs s1 = free_bufs s \<and> sems s1 = sems s
            \<and> last (errs s1) = Unexpected_completion opc
            \<and> (\<exists>n. load b (data b) = Some n
                 \<and> ncmd (dev s1) = (if n \<noteq> 0 \<and> ncmd (dev s) = 0 then 1 else ncmd (dev s))
                 \<and> ncmd_sem (dev s1)
                     = (if n \<noteq> 0 \<and> ncmd (dev s) = 0 then Suc (ncmd_sem (dev s))
                        else ncmd_sem (dev s))))
       \<and> (hci_cmd_status b s = Some (b1, s1) \<and> load_le16 b (data b + 2) = Some opc \<longrightarrow>
            sent_cmd (dev s1) = Some c \<and> free_bufs s1 = free_bufs s \<and> sems s1 = sems s
            \<and> last (errs s1) = Unexpected_completion opc
            \<and> (\<exists>n. load b (data b + 1) = Some n
                 \<and> ncmd (dev s1) = (if n \<noteq> 0 \<and> ncmd (dev s) = 0 then 1 else ncmd (dev s))
                 \<and> ncmd_sem (dev s1)
                     = (if n \<noteq> 0 \<and> ncmd (dev s) = 0 then Suc (ncmd_sem (dev s))
                        else ncmd_sem (dev s))))"
proof (intro conjI impI)
  show "hci_cmd_done opc s = Some (BT_ERR (Unexpected_completion opc) s)"
    using assms by (rule hci_cmd_done_mismatch)
next
  assume a: "hci_cmd_complete b s = Some (b1, s1) \<and> load_le16 b (data b + 1) = Some opc"
  have m: "sent_cmd (dev s1) = Some c \<and> free_bufs s1 = free_bufs s \<and> sems s1 = sems s
       \<and> last (errs s1) = Unexpected_completion opc"
    using mismatch_complete [OF assms] a by blast
  from a obtain t1 t2 n where
    sw: "hci_cmd_complete_switch opc (snd (bt_buf_pull b sizeof_evt_cmd_complete)) s = Some t1"
    and dn: "hci_cmd_done opc t1 = Some t2"
    and n: "load b (data b) = Some n" and s1: "s1 = ncmd_refill n t2"
    by (auto elim!: hci_cmd_complete_parts)
  have "ncmd (dev t2) = ncmd (dev s) \<and> ncmd_sem (dev t2) = ncmd_sem (dev s)"
    using switch_frame [OF sw] hci_cmd_done_credit [OF dn] by simp
  then have r: "\<exists>n. load b (data b) = Some n
         \<and> ncmd (dev s1) = (if n \<noteq> 0 \<and> ncmd (dev s) = 0 then 1 else ncmd (dev s))
         \<and> ncmd_sem (dev s1)
             = (if n \<noteq> 0 \<and> ncmd (dev s) = 0 then Suc (ncmd_sem (dev s)) else ncmd_sem (dev s))"
    using n s1 ncmd_refill_credit [of n t2] by simp
  show "sent_cmd (dev s1) = Some c" "free_bufs s1 = free_bufs s" "sems s1 = sems s"
    "last (errs s1) = Unexpected_completion opc"
    using m by simp_all
  show "\<exists>n. load b (data b) = Some n
         \<and> ncmd (dev s1) = (if n \<noteq> 0 \<and> ncmd (dev s) = 0 then 1 else ncmd (dev s))
         \<and> ncmd_sem (dev s1)
             = (if n \<noteq> 0 \<and> ncmd (dev s) = 0 then Suc (ncmd_sem (dev s)) else ncmd_sem (dev s))"
    by (rule r)
next
  assume a: "hci_cmd_status b s = Some (b1, s1) \<and> load_le16 b (data b + 2) = Some opc"
  have m: "sent_cmd (dev s1) = Some c \<and> free_bufs s1 = free_bufs s \<and> sems s1 = sems s
       \<and> last (errs s1) = Unexpected_completion opc"
    using mismatch_status [OF assms] a by blast
  from a obtain t2 n where
    dn: "hci_cmd_done opc (BT_ERR (Unknown_opcode opc) s) = Some t2"
    and n: "load b (data b + 1) = Some n" and s1: "s1 = ncmd_refill n t2"
    by (auto elim!: hci_cmd_status_parts)
  have "ncmd (dev t2) = ncmd (dev s) \<and> ncmd_sem (dev t2) = ncmd_sem (dev s)"
    using hci_cmd_done_credit [OF dn] by (simp add: BT_ERR_def)
  then have r: "\<exists>n. load b (data b + 1) = Some n
         \<and> ncmd (dev s1) = (if n \<noteq> 0 \<and> ncmd (dev s) = 0 then 1 else ncmd (dev s))
         \<and> ncmd_sem (dev s1)
             = (if n \<noteq> 0 \<and> ncmd (dev s) = 0 then Suc (ncmd_sem (dev s)) else ncmd_sem (dev s))"
    using n s1 ncmd_refill_credit [of n t2] by simp
  show "sent_cmd (dev s1) = Some c" "free_bufs s1 = free_bufs s" "sems s1 = sems s"
    "last (errs s1) = Unexpected_completion opc"
    using m by simp_all
  show "\<exists>n. load b (data b + 1) = Some n
         \<and> ncmd (dev s1) = (if n \<noteq> 0 \<and> ncmd (dev s) = 0 then 1 else ncmd (dev s))
         \<and> ncmd_sem (dev s1)
             = (if n \<noteq> 0 \<and> ncmd (dev s) = 0 then Suc (ncmd_sem (dev s)) else ncmd_sem (dev s))"
    by (rule r)
qed

lemma cc_nop_runs: "\<exists>b1 s1. hci_cmd_complete cc_nop busy_state = Some (b1, s1)"
  by (simp add: sample_defs handler_defs const_defs Let_def)

lemma cs_nop_runs: "\<exists>b1 s1. hci_cmd_status cs_nop busy_state = Some (b1, s1)"
  by (simp add: sample_defs cs_nop_def handler_defs const_defs Let_def)

lemma nop_facts:
  "sent_cmd (dev busy_state) = Some sent_reset" "opcode sent_reset \<noteq> 0"
  "load_le16 cc_nop (data cc_nop + 1) = Some 0" "load cc_nop (data cc_nop) = Some 1"
  "load_le16 cs_nop (data cs_nop + 2) = Some 0" "load cs_nop (data cs_nop + 1) = Some 0"
  "ncmd (dev busy_state) = 0" "ncmd_sem (dev busy_state) = 0"
  "free_bufs busy_state = []"
  by (simp_all add: sample_defs cs_nop_def load_le16_def load_def const_defs)

theorem unexpected_completion_logged_only_witness:
  "sent_cmd (dev busy_state) = Some sent_reset \<and> opcode sent_reset \<noteq> 0
   \<and> hci_cmd_done 0 busy_state = Some (BT_ERR (Unexpected_completion 0) busy_state)
   \<and> (\<exists>b1 s1. hci_cmd_complete cc_nop busy_state = Some (b1, s1)
        \<and> load_le16 cc_nop (data cc_nop + 1) = Some 0
        \<and> sent_cmd (dev s1) = Some sent_reset \<and> free_bufs s1 = []
        \<and> last (errs s1) = Unexpected_completion 0)
   \<and> (\<exists>b1 s1. hci_cmd_status cs_nop busy_state = Some (b1, s1)
        \<and> load_le16 cs_nop (data cs_nop + 2) = Some 0
        \<and> sent_cmd (dev s1) = Some sent_reset \<and> free_bufs s1 = []
        \<and> last (errs s1) = Unexpected_completion 0
        \<and> ncmd (dev s1) = 0 \<and> ncmd_sem (dev s1) = 0)"
proof -
  obtain b1 s1 where c: "hci_cmd_complete cc_nop busy_state = Some (b1, s1)"
    using cc_nop_runs by blast
  obtain b2 s2 where d: "hci_cmd_status cs_nop busy_state = Some (b2, s2)"
    using cs_nop_runs by blast
  note t1 = unexpected_completion_logged_only [OF nop_facts(1,2), of cc_nop b1 s1]
  note t2 = unexpected_completion_logged_only [OF nop_facts(1,2), of cs_nop b2 s2]
  have "sent_cmd (dev s1) = Some sent_reset \<and> free_bufs s1 = []
        \<and> last (errs s1) = Unexpected_completion 0"
    using t1 c nop_facts by simp
  moreover have "sent_cmd (dev s2) = Some sent_reset \<and> free_bufs s2 = []
        \<and> last (errs s2) = Unexpected_completion 0 \<and> ncmd (dev s2) = 0 \<and> ncmd_sem (dev s2) = 0"
    using t2 d nop_facts by simp
  moreover have "hci_cmd_done 0 busy_state = Some (BT_ERR (Unexpected_completion 0) busy_state)"
    using t1 by blast
  ultimately show ?thesis
    using c d nop_facts by blast
qed

text \<open>
  The claim as the specification words it fails: the outstanding command is \<^verbatim>\<open>RESET\<close>,
  the credit is used up, and a Command Complete for opcode 0 advertising \<^verbatim>\<open>ncmd = 1\<close>
  arrives. The completion is unexpected, and still \<^verbatim>\<open>ncmd\<close> becomes 1 and \<^verbatim>\<open>ncmd_sem\<close>
  is given.
\<close>

theorem unexpected_completion_refills_credit:
  "sent_cmd (dev busy_state) = Some sent_reset \<and> opcode sent_reset \<noteq> 0
   \<and> load_le16 cc_nop (data cc_nop + 1) = Some 0
   \<and> ncmd (dev busy_state) = 0 \<and> ncmd_sem (dev busy_state) = 0
   \<and> (\<exists>b1 s1. hci_cmd_complete cc_nop busy_state = Some (b1, s1)
        \<and> ncmd (dev s1) = 1 \<and> ncmd_sem (dev s1) = 1
        \<and> errs s1 = [Unknown_opcode 0, Unexpected_completion 0])"
  by (simp add: sample_defs handler_defs const_defs Let_def)

subsection \<open>Credit events with no command outstanding\<close>

text \<open>With \<^verbatim>\<open>dev.sent_cmd\<close> NULL neither handler gets as far as the credit refill, whatever
  the event is: \<^verbatim>\<open>hci_cmd_done\<close> comes first.\<close>

lemma handlers_null:
  assumes "sent_cmd (dev s) = None"
  shows "hci_cmd_complete b s = None" and "hci_cmd_status b s = None"
proof -
  have sw: "\<And>opc b1 t. hci_cmd_complete_switch opc b1 s = Some t \<Longrightarrow> hci_cmd_done opc t = None"
    using switch_frame assms by (metis hci_cmd_done_null)
  show "hci_cmd_complete b s = None"
    unfolding hci_cmd_complete_def Let_def
    by (auto simp: bind_eq_None_conv dest: sw)
  have "\<And>opc. hci_cmd_done opc (BT_ERR (Unknown_opcode opc) s) = None"
    using assms by (simp add: hci_cmd_done_null BT_ERR_def)
  then show "hci_cmd_status b s = None"
    unfolding hci_cmd_status_def Let_def
    by (auto simp: bind_eq_None_conv)
qed

lemma idle_run_state:
  "map_option (\<lambda>s. (sent_cmd (dev s), ncmd (dev s), ncmd_sem (dev s), rx_fiber s, rx_queue (dev s),
       map opcode (drv_sent s), map opcode (cmd_queue (dev s)), init_task s, errs s))
     (run idle_run boot0)
   = Some (None, 0, 0, Rx_get_buf, [pkt_nop], [BT_HCI_OP_RESET],
       [BT_HCI_OP_READ_LOCAL_FEATURES, BT_HCI_OP_READ_LOCAL_VERSION_INFO, BT_HCI_OP_READ_BD_ADDR],
       Init_wait_bd_addr 0, [])"
  by code_simp

text \<open>
  C4 says that after every Command Complete or Command Status event, if the event carried
  \<^verbatim>\<open>ncmd > 0\<close> and the credit \<^verbatim>\<open>dev.ncmd\<close> was 0, then \<^verbatim>\<open>dev.ncmd\<close> is 1 and the credit
  semaphore has been given once, and that otherwise neither changes. The code does not do
  that for an event that arrives while no command is outstanding. After \<open>idle_run\<close> the
  command \<^verbatim>\<open>RESET\<close> has been completed by an event with \<^verbatim>\<open>ncmd = 0\<close>: no command is
  outstanding, the credit is 0, three commands wait in the queue, and the controller's
  Command Complete for opcode 0 with \<^verbatim>\<open>ncmd = 1\<close> is in the receive queue. The handler
  parses the event, its switch logs the unknown opcode, and \<^verbatim>\<open>hci_cmd_done\<close> then reads
  \<^verbatim>\<open>dev.sent_cmd->opcode\<close> through the NULL pointer: the step of the receive fiber has no
  defined result, and the credit is not refilled. A Command Status for opcode 0 fares the
  same. So does the same Command Complete in the state \<^verbatim>\<open>bt_init\<close> leaves, where the credit
  is 1 and the claim has nothing change.
\<close>

theorem refill_event_with_no_command_outstanding:
  "\<exists>s. run idle_run boot0 = Some s
     \<and> sent_cmd (dev s) = None \<and> ncmd (dev s) = 0 \<and> ncmd_sem (dev s) = 0
     \<and> rx_fiber s = Rx_get_buf \<and> rx_queue (dev s) = [pkt_nop]
     \<and> type pkt_nop = BT_EVT
     \<and> load pkt_nop (data pkt_nop) = Some BT_HCI_EVT_CMD_COMPLETE
     \<and> load pkt_nop (data pkt_nop + 2) = Some 1
     \<and> load_le16 pkt_nop (data pkt_nop + 3) = Some 0
     \<and> hci_cmd_complete_switch 0 (snd (bt_buf_pull (snd (bt_buf_pull pkt_nop sizeof_evt_hdr))
                                        sizeof_evt_cmd_complete))
           (s\<lparr>dev := (dev s)\<lparr>rx_queue := []\<rparr>\<rparr>)
         = Some (s\<lparr>dev := (dev s)\<lparr>rx_queue := []\<rparr>, errs := errs s @ [Unknown_opcode 0]\<rparr>)
     \<and> hci_cmd_done 0 (s\<lparr>dev := (dev s)\<lparr>rx_queue := []\<rparr>, errs := errs s @ [Unknown_opcode 0]\<rparr>)
         = None
     \<and> hci_cmd_complete (snd (bt_buf_pull pkt_nop sizeof_evt_hdr))
           (s\<lparr>dev := (dev s)\<lparr>rx_queue := []\<rparr>\<rparr>) = None
     \<and> hci_cmd_status (snd (bt_buf_pull pkt_nop_status sizeof_evt_hdr))
           (s\<lparr>dev := (dev s)\<lparr>rx_queue := []\<rparr>\<rparr>) = None
     \<and> step Rx_fiber s = None
     \<and> sent_cmd (dev (bt_init boot0)) = None \<and> ncmd (dev (bt_init boot0)) = 1
     \<and> hci_cmd_complete (snd (bt_buf_pull pkt_nop sizeof_evt_hdr)) (bt_init boot0) = None"
proof -
  from idle_run_state obtain s where
    r: "run idle_run boot0 = Some s" and
    f: "sent_cmd (dev s) = None" "ncmd (dev s) = 0" "ncmd_sem (dev s) = 0"
       "rx_fiber s = Rx_get_buf" "rx_queue (dev s) = [pkt_nop]"
    by auto
  let ?t = "s\<lparr>dev := (dev s)\<lparr>rx_queue := []\<rparr>\<rparr>"
  let ?u = "s\<lparr>dev := (dev s)\<lparr>rx_queue := []\<rparr>, errs := errs s @ [Unknown_opcode 0]\<rparr>"
  have p: "type pkt_nop = BT_EVT" "load pkt_nop (data pkt_nop) = Some BT_HCI_EVT_CMD_COMPLETE"
    "load pkt_nop (data pkt_nop + 2) = Some 1" "load_le16 pkt_nop (data pkt_nop + 3) = Some 0"
    by (simp_all add: pkt_nop_def pkt_def load_def load_le16_def BT_HCI_EVT_CMD_COMPLETE_def)
  have t: "sent_cmd (dev ?t) = None" using f(1) by simp
  have sw: "hci_cmd_complete_switch 0 (snd (bt_buf_pull (snd (bt_buf_pull pkt_nop sizeof_evt_hdr))
                                        sizeof_evt_cmd_complete)) ?t = Some ?u"
    by (simp add: hci_cmd_complete_switch_def const_defs BT_ERR_def)
  have d: "hci_cmd_done 0 ?u = None" using f(1) by (simp add: hci_cmd_done_null)
  have c: "hci_cmd_complete (snd (bt_buf_pull pkt_nop sizeof_evt_hdr)) ?t = None"
    using t by (rule handlers_null(1))
  have st: "hci_cmd_status (snd (bt_buf_pull pkt_nop_status sizeof_evt_hdr)) ?t = None"
    using t by (rule handlers_null(2))
  have e: "hci_event pkt_nop ?t = None"
    unfolding hci_event_def Let_def using p(2) c by simp
  have x: "step Rx_fiber s = None"
    using f(4,5) p(1) e by (simp add: step_def hci_rx_fiber_def)
  have b: "sent_cmd (dev (bt_init boot0)) = None" "ncmd (dev (bt_init boot0)) = 1"
    by code_simp+
  have bc: "hci_cmd_complete (snd (bt_buf_pull pkt_nop sizeof_evt_hdr)) (bt_init boot0) = None"
    using b(1) by (rule handlers_null(1))
  show ?thesis
    using r f p sw d c st x b bc by blast
qed

subsection \<open>The response parsers\<close>

text \<open>
  What each case of the \<^verbatim>\<open>switch\<close> of \<^verbatim>\<open>hci_cmd_complete\<close> does to the state, read off the
  response \<open>b\<close> (its \<^verbatim>\<open>data\<close> at the status byte). Nothing but the fields named changes.
  Six rows are those of the table of the specification; in the row of
  \<^verbatim>\<open>READ_BUFFER_SIZE\<close> the 16-bit \<^verbatim>\<open>acl_max_num\<close> is stored into the 8-bit \<^verbatim>\<open>le_pkts\<close>,
  which keeps its low byte.
\<close>

lemma switch_cases:
  "hci_cmd_complete_switch BT_HCI_OP_RESET b s = with_dev (hci_reset_complete b) s"
  "hci_cmd_complete_switch BT_HCI_OP_READ_LOCAL_VERSION_INFO b s
     = with_dev (hci_read_local_ver_complete b) s"
  "hci_cmd_complete_switch BT_HCI_OP_READ_LOCAL_FEATURES b s
     = with_dev (hci_read_features_complete b) s"
  "hci_cmd_complete_switch BT_HCI_OP_READ_BUFFER_SIZE b s
     = with_dev (hci_read_buffer_size_complete b) s"
  "hci_cmd_complete_switch BT_HCI_OP_READ_BD_ADDR b s
     = with_dev (hci_read_bdaddr_complete b) s"
  "hci_cmd_complete_switch BT_HCI_OP_LE_READ_BUFFER_SIZE b s
     = with_dev (hci_le_read_buffer_size_complete b) s"
  "hci_cmd_complete_switch BT_HCI_OP_LE_READ_LOCAL_FEATURES b s
     = with_dev (hci_le_read_features_complete b) s"
  by (simp_all add: hci_cmd_complete_switch_def const_defs)

lemma with_dev_Some:
  "with_dev f s = Some s1 \<longleftrightarrow> (\<exists>d. f (dev s) = Some d \<and> s1 = s\<lparr>dev := d\<rparr>)"
  by (auto simp: with_dev_def split: bind_splits)

lemma response_table:
  "hci_cmd_complete_switch BT_HCI_OP_RESET b s = Some s1 \<Longrightarrow> s1 = s"
  "hci_cmd_complete_switch BT_HCI_OP_READ_LOCAL_VERSION_INFO b s = Some s1 \<Longrightarrow>
     \<exists>st. load b (data b) = Some st \<and>
       (if st \<noteq> 0 then s1 = s
        else \<exists>v r m. load b (data b + 1) = Some v \<and> load_le16 b (data b + 2) = Some r
               \<and> load_le16 b (data b + 5) = Some m
               \<and> s1 = s\<lparr>dev := (dev s)\<lparr>hci_version := v, hci_revision := r, manufacturer := m\<rparr>\<rparr>)"
  "hci_cmd_complete_switch BT_HCI_OP_READ_LOCAL_FEATURES b s = Some s1 \<Longrightarrow>
     \<exists>f. load_bytes b (data b + 1) 8 = Some f \<and> s1 = s\<lparr>dev := (dev s)\<lparr>features := f\<rparr>\<rparr>"
  "hci_cmd_complete_switch BT_HCI_OP_READ_BUFFER_SIZE b s = Some s1 \<Longrightarrow>
     \<exists>st. load b (data b) = Some st \<and>
       (if st \<noteq> 0 \<or> le_mtu (dev s) \<noteq> 0 then s1 = s
        else \<exists>l n. load_le16 b (data b + 1) = Some l \<and> load_le16 b (data b + 4) = Some n
               \<and> s1 = s\<lparr>dev := (dev s)\<lparr>le_mtu := l, le_pkts := ucast n\<rparr>\<rparr>)"
  "hci_cmd_complete_switch BT_HCI_OP_READ_BD_ADDR b s = Some s1 \<Longrightarrow>
     \<exists>st. load b (data b) = Some st \<and>
       (if st \<noteq> 0 then s1 = s
        else \<exists>a. load_bytes b (data b + 1) 6 = Some a \<and> s1 = s\<lparr>dev := (dev s)\<lparr>bdaddr := a\<rparr>\<rparr>)"
  "hci_cmd_complete_switch BT_HCI_OP_LE_READ_BUFFER_SIZE b s = Some s1 \<Longrightarrow>
     \<exists>st. load b (data b) = Some st \<and>
       (if st \<noteq> 0 then s1 = s
        else \<exists>l n. load_le16 b (data b + 1) = Some l \<and> load b (data b + 3) = Some n
               \<and> s1 = s\<lparr>dev := (dev s)\<lparr>le_mtu := l, le_pkts := n\<rparr>\<rparr>)"
  "hci_cmd_complete_switch BT_HCI_OP_LE_READ_LOCAL_FEATURES b s = Some s1 \<Longrightarrow>
     \<exists>f. load_bytes b (data b + 1) 8 = Some f \<and> s1 = s\<lparr>dev := (dev s)\<lparr>le_features := f\<rparr>\<rparr>"
proof -
  show "hci_cmd_complete_switch BT_HCI_OP_RESET b s = Some s1 \<Longrightarrow> s1 = s"
    by (auto simp: switch_cases with_dev_Some hci_reset_complete_def split: bind_splits)
  show "hci_cmd_complete_switch BT_HCI_OP_READ_LOCAL_VERSION_INFO b s = Some s1 \<Longrightarrow>
     \<exists>st. load b (data b) = Some st \<and>
       (if st \<noteq> 0 then s1 = s
        else \<exists>v r m. load b (data b + 1) = Some v \<and> load_le16 b (data b + 2) = Some r
               \<and> load_le16 b (data b + 5) = Some m
               \<and> s1 = s\<lparr>dev := (dev s)\<lparr>hci_version := v, hci_revision := r, manufacturer := m\<rparr>\<rparr>)"
    by (auto simp: switch_cases with_dev_Some hci_read_local_ver_complete_def Let_def
        split: bind_splits if_splits)
  show "hci_cmd_complete_switch BT_HCI_OP_READ_LOCAL_FEATURES b s = Some s1 \<Longrightarrow>
     \<exists>f. load_bytes b (data b + 1) 8 = Some f \<and> s1 = s\<lparr>dev := (dev s)\<lparr>features := f\<rparr>\<rparr>"
    by (auto simp: switch_cases with_dev_Some hci_read_features_complete_def Let_def
        split: bind_splits)
  show "hci_cmd_complete_switch BT_HCI_OP_READ_BUFFER_SIZE b s = Some s1 \<Longrightarrow>
     \<exists>st. load b (data b) = Some st \<and>
       (if st \<noteq> 0 \<or> le_mtu (dev s) \<noteq> 0 then s1 = s
        else \<exists>l n. load_le16 b (data b + 1) = Some l \<and> load_le16 b (data b + 4) = Some n
               \<and> s1 = s\<lparr>dev := (dev s)\<lparr>le_mtu := l, le_pkts := ucast n\<rparr>\<rparr>)"
    by (auto simp: switch_cases with_dev_Some hci_read_buffer_size_complete_def Let_def
        split: bind_splits if_splits)
  show "hci_cmd_complete_switch BT_HCI_OP_READ_BD_ADDR b s = Some s1 \<Longrightarrow>
     \<exists>st. load b (data b) = Some st \<and>
       (if st \<noteq> 0 then s1 = s
        else \<exists>a. load_bytes b (data b + 1) 6 = Some a \<and> s1 = s\<lparr>dev := (dev s)\<lparr>bdaddr := a\<rparr>\<rparr>)"
    by (auto simp: switch_cases with_dev_Some hci_read_bdaddr_complete_def Let_def
        split: bind_splits if_splits)
  show "hci_cmd_complete_switch BT_HCI_OP_LE_READ_BUFFER_SIZE b s = Some s1 \<Longrightarrow>
     \<exists>st. load b (data b) = Some st \<and>
       (if st \<noteq> 0 then s1 = s
        else \<exists>l n. load_le16 b (data b + 1) = Some l \<and> load b (data b + 3) = Some n
               \<and> s1 = s\<lparr>dev := (dev s)\<lparr>le_mtu := l, le_pkts := n\<rparr>\<rparr>)"
    by (auto simp: switch_cases with_dev_Some hci_le_read_buffer_size_complete_def Let_def
        split: bind_splits if_splits)
  show "hci_cmd_complete_switch BT_HCI_OP_LE_READ_LOCAL_FEATURES b s = Some s1 \<Longrightarrow>
     \<exists>f. load_bytes b (data b + 1) 8 = Some f \<and> s1 = s\<lparr>dev := (dev s)\<lparr>le_features := f\<rparr>\<rparr>"
    by (auto simp: switch_cases with_dev_Some hci_le_read_features_complete_def Let_def
        split: bind_splits)
qed

text \<open>
  C3 at a response the code mishandles: \<^verbatim>\<open>READ_BUFFER_SIZE\<close> completes with status 0,
  \<^verbatim>\<open>acl_max_len = 310\<close> and \<^verbatim>\<open>acl_max_num = 256\<close>, while \<^verbatim>\<open>le_mtu\<close> is 0. The parser records
  \<^verbatim>\<open>le_mtu = 310\<close>, and \<^verbatim>\<open>le_pkts = 0\<close>, not 256.
\<close>

theorem read_buffer_size_truncates_le_pkts:
  "load rp_buffer_size (data rp_buffer_size) = Some 0
   \<and> load_le16 rp_buffer_size (data rp_buffer_size + 1) = Some 310
   \<and> load_le16 rp_buffer_size (data rp_buffer_size + 4) = Some 256
   \<and> le_mtu (dev busy_state) = 0
   \<and> (\<exists>s1. hci_cmd_complete_switch BT_HCI_OP_READ_BUFFER_SIZE rp_buffer_size busy_state = Some s1
         \<and> le_mtu (dev s1) = 310 \<and> le_pkts (dev s1) = 0)"
  by (simp add: rp_buffer_size_def sample_defs hci_cmd_complete_switch_def with_dev_def
      hci_read_buffer_size_complete_def load_le16_def load_def const_defs Let_def)

subsection \<open>ACL framing\<close>

lemma unat_data_plus:
  assumes "buf_inv (b :: 'l::len bt_buf)" and "k \<le> unat (len b)" and "k < 2 ^ 32"
  shows "unat (data b + of_nat k) = unat (data b) + k"
proof -
  have le: "unat (data b) + unat (len b) \<le> length (buf b)" and c: "length (buf b) < 2 ^ 32"
    using assms(1) by (simp_all add: buf_inv_def)
  have k: "unat (of_nat k :: size_t) = k"
    using assms(3) by (simp add: unat_of_nat)
  have "unat (data b) + unat (of_nat k :: size_t) < 2 ^ 32"
    using le c assms(2) k by linarith
  then show ?thesis
    using unat_add_lem [of "data b" "of_nat k :: size_t"] k by simp
qed

lemma load_in_window:
  assumes "buf_inv (b :: 'l::len bt_buf)" and "k < unat (len b)" and "k < 2 ^ 32"
  shows "load b (data b + of_nat k) = Some (buf b ! (unat (data b) + k))"
proof -
  have le: "unat (data b) + unat (len b) \<le> length (buf b)"
    using assms(1) by (simp add: buf_inv_def)
  have "unat (data b + of_nat k) = unat (data b) + k"
    using unat_data_plus [OF assms(1) _ assms(3)] assms(2) by simp
  then show ?thesis
    using le assms(2) by (simp add: load_def)
qed

lemma load_le16_in_window:
  assumes "buf_inv (b :: 'l::len bt_buf)" and "k + 1 < unat (len b)" and "k + 1 < 2 ^ 32"
  shows "load_le16 b (data b + of_nat k)
         = Some (ucast (buf b ! (unat (data b) + k))
                 OR push_bit 8 (ucast (buf b ! (unat (data b) + k + 1))))"
proof -
  have a: "load b (data b + of_nat k) = Some (buf b ! (unat (data b) + k))"
    using load_in_window [OF assms(1), of k] assms(2,3) by simp
  have "load b (data b + of_nat (k + 1)) = Some (buf b ! (unat (data b) + (k + 1)))"
    using load_in_window [OF assms(1), of "k + 1"] assms(2,3) by simp
  then have b: "load b (data b + of_nat k + 1) = Some (buf b ! (unat (data b) + k + 1))"
    by (simp add: ac_simps)
  show ?thesis
    unfolding load_le16_def using a b by simp
qed

lemma unat_len_minus:
  assumes "k \<le> unat (x :: 'l::len word)"
  shows "unat (x - of_nat k) = unat x - k"
proof -
  have "k < 2 ^ LENGTH('l)"
    using assms unsigned_less [of x] by (metis le_less_trans)
  then have k: "unat (of_nat k :: 'l word) = k" by (simp add: unat_of_nat)
  then have "(of_nat k :: 'l word) \<le> x" using assms by (simp add: word_le_nat_alt)
  then show ?thesis using k by (simp add: unat_sub)
qed

lemma acl_samples:
  "buf_inv acl_good" "4 \<le> unat (len acl_good)" "buf_inv acl_bad" "4 \<le> unat (len acl_bad)"
  by (simp_all add: acl_good_def acl_bad_def buf_inv_def)

lemma busy_state_logs: "free_bufs busy_state = []" "errs busy_state = []"
  by (simp_all add: busy_state_def boot_def)

text \<open>
  C7, as the code has it. A received ACL packet whose payload window lies inside the array
  and holds at least the four bytes of the header: \<^verbatim>\<open>hci_acl\<close> reads the little-endian
  \<^verbatim>\<open>len\<close> field \<open>hl\<close> and \<^verbatim>\<open>handle\<close> field of the header, pulls the header, and accepts the packet exactly if the
  length it was received with is \<open>hl\<close> plus the size of the header. Otherwise one line, the
  mismatch, is appended to the log. In both cases the pulled buffer is appended to the
  pool, and nothing else in the state changes: nothing is delivered upwards.
\<close>

theorem acl_length_check:
  assumes "buf_inv b" and "4 \<le> unat (len b)"
  shows "\<exists>hl. load_le16 b (data b + 2) = Some hl
     \<and> hl = ucast (buf b ! (unat (data b) + 2)) OR push_bit 8 (ucast (buf b ! (unat (data b) + 3)))
     \<and> load_le16 b (data b)
         = Some (ucast (buf b ! unat (data b)) OR push_bit 8 (ucast (buf b ! (unat (data b) + 1))))
     \<and> hci_acl b s
         = Some (s\<lparr>free_bufs := free_bufs s @ [b\<lparr>len := len b - 4, data := data b + 4\<rparr>],
                   errs := (if unat (len b) = unat hl + unat sizeof_acl_hdr then errs s
                            else errs s @ [ACL_data_length_mismatch (unat (len b) - 4) (unat hl)])\<rparr>)"
proof -
  let ?hl = "ucast (buf b ! (unat (data b) + 2))
             OR push_bit 8 (ucast (buf b ! (unat (data b) + 3))) :: u16"
  have l2: "load_le16 b (data b + 2) = Some ?hl"
    using load_le16_in_window [OF assms(1), of 2] assms(2) by (simp add: numeral_3_eq_3)
  have l0: "load_le16 b (data b)
         = Some (ucast (buf b ! unat (data b)) OR push_bit 8 (ucast (buf b ! (unat (data b) + 1))))"
    using load_le16_in_window [OF assms(1), of 0] assms(2) by simp
  have m: "unat (len b - 4) = unat (len b) - 4"
    using unat_len_minus [of 4 "len b"] assms(2) by simp
  have p: "snd (bt_buf_pull b sizeof_acl_hdr) = b\<lparr>len := len b - 4, data := data b + 4\<rparr>"
    by (simp add: bt_buf_pull_def sizeof_acl_hdr_def)
  have e: "unat (len b) - 4 = unat ?hl \<longleftrightarrow> unat (len b) = unat ?hl + unat sizeof_acl_hdr"
    using assms(2) by (auto simp: sizeof_acl_hdr_def)
  have "hci_acl b s
         = Some (s\<lparr>free_bufs := free_bufs s @ [b\<lparr>len := len b - 4, data := data b + 4\<rparr>],
                   errs := (if unat (len b) = unat ?hl + unat sizeof_acl_hdr then errs s
                            else errs s @ [ACL_data_length_mismatch (unat (len b) - 4) (unat ?hl)])\<rparr>)"
    unfolding hci_acl_def Let_def l2 l0 p using m e by (simp add: bt_buf_put_def BT_ERR_def)
  then show ?thesis using l2 l0 by blast
qed

theorem acl_length_check_witness:
  "buf_inv acl_good \<and> 4 \<le> unat (len acl_good)
   \<and> load_le16 acl_good (data acl_good + 2) = Some 2
   \<and> hci_acl acl_good busy_state
       = Some (busy_state\<lparr>free_bufs := [acl_good\<lparr>len := 2, data := 4\<rparr>], errs := []\<rparr>)
   \<and> buf_inv acl_bad \<and> 4 \<le> unat (len acl_bad)
   \<and> load_le16 acl_bad (data acl_bad + 2) = Some 2
   \<and> hci_acl acl_bad busy_state
       = Some (busy_state\<lparr>free_bufs := [acl_bad\<lparr>len := 3, data := 4\<rparr>],
                            errs := [ACL_data_length_mismatch 3 2]\<rparr>)"
proof -
  have l: "load_le16 acl_good (data acl_good + 2) = Some 2"
    "load_le16 acl_bad (data acl_bad + 2) = Some 2"
    by (simp_all add: acl_good_def acl_bad_def load_le16_def load_def)
  have g: "hci_acl acl_good busy_state
       = Some (busy_state\<lparr>free_bufs := [acl_good\<lparr>len := 2, data := 4\<rparr>], errs := []\<rparr>)"
    using acl_length_check [OF acl_samples(1,2), of busy_state] l(1)
    by (simp add: acl_good_def sizeof_acl_hdr_def busy_state_logs)
  have b: "hci_acl acl_bad busy_state
       = Some (busy_state\<lparr>free_bufs := [acl_bad\<lparr>len := 3, data := 4\<rparr>],
                            errs := [ACL_data_length_mismatch 3 2]\<rparr>)"
    using acl_length_check [OF acl_samples(3,4), of busy_state] l(2)
    by (simp add: acl_bad_def sizeof_acl_hdr_def busy_state_logs)
  show ?thesis using g b l acl_samples by simp
qed

text \<open>
  The claim as the specification words it, for every received packet, fails on a packet
  shorter than its header. \<^verbatim>\<open>hci_acl\<close> does not look at \<^verbatim>\<open>buf->len\<close> before it reads the
  header, and \<^verbatim>\<open>bt_buf_pull\<close> makes \<^verbatim>\<open>buf->len\<close> wrap around. With \<^verbatim>\<open>len\<close> a \<^verbatim>\<open>uint8_t\<close>, a
  packet of two bytes behind which the array happens to hold \<open>0xfe\<close> and 0 is read as
  announcing 254 bytes; its length 2 is not 254 plus the size of the header, and still
  nothing is logged: the buffer goes back to the pool with length 254.
\<close>

theorem acl_short_packet_not_logged:
  "unat (len acl_short) = 2
   \<and> load_le16 acl_short (data acl_short + 2) = Some 254
   \<and> unat (len acl_short) \<noteq> 254 + unat sizeof_acl_hdr
   \<and> unat (len (snd (bt_buf_pull acl_short sizeof_acl_hdr))) = 254
   \<and> map_option errs (hci_acl acl_short busy_state) = Some (errs busy_state)
   \<and> map_option free_bufs (hci_acl acl_short busy_state)
       = Some (free_bufs busy_state @ [snd (bt_buf_pull acl_short sizeof_acl_hdr)])"
  by (simp add: acl_short_def hci_acl_def load_le16_def load_def bt_buf_pull_def
      sizeof_acl_hdr_def Let_def bt_buf_put_def)

text \<open>
  When \<^verbatim>\<open>len\<close> is wider than the 16 bits of the header field, a packet shorter than its
  header is always logged as a mismatch.
\<close>

lemma acl_short_packet_wide_len:
  assumes w: "16 < LENGTH('l::len)" and sh: "unat (len (b :: 'l bt_buf)) < 4"
    and run: "hci_acl b s = Some s1"
  shows "\<exists>hl. load_le16 b (data b + 2) = Some hl
     \<and> s1 = bt_buf_put (b\<lparr>len := len b - 4, data := data b + 4\<rparr>)
              (BT_ERR (ACL_data_length_mismatch (unat (len b - 4)) (unat hl)) s)"
proof -
  from run obtain hl h where
    hl: "load_le16 b (data b + 2) = Some hl" and h: "load_le16 b (data b) = Some h"
    unfolding hci_acl_def Let_def by (auto simp: bind_eq_Some_conv)
  have p: "snd (bt_buf_pull b sizeof_acl_hdr) = b\<lparr>len := len b - 4, data := data b + 4\<rparr>"
    by (simp add: bt_buf_pull_def sizeof_acl_hdr_def)
  have big: "(2::nat) ^ 17 \<le> 2 ^ LENGTH('l)"
    using w by (intro power_increasing) simp_all
  then have "(4::nat) < 2 ^ LENGTH('l)" by simp
  then have four: "unat (4 :: 'l word) = 4"
    using unat_of_nat [where 'a='l, of 4] by simp
  have "unat (len b - 4) = unat (len b) + 2 ^ LENGTH('l) - 4"
    using sh four by (simp add: unat_sub_if_size word_size)
  then have "2 ^ 17 - 4 \<le> unat (len b - 4)" using big by linarith
  moreover have "unat hl < 2 ^ 16" using unsigned_less [of hl] by simp
  ultimately have ne: "unat (len b - 4) \<noteq> unat hl" by simp
  have "hci_acl b s = Some (bt_buf_put (b\<lparr>len := len b - 4, data := data b + 4\<rparr>)
              (BT_ERR (ACL_data_length_mismatch (unat (len b - 4)) (unat hl)) s))"
    unfolding hci_acl_def Let_def hl h p using ne by simp
  then show ?thesis using run hl by simp
qed

subsection \<open>Bring-up: what the sends do\<close>

lemma bt_hci_cmd_create_empty:
  "drv (dev s) = Some d \<Longrightarrow> free_bufs s = [] \<Longrightarrow>
     bt_hci_cmd_create opc pl s
       = Some (None, BT_ERR Cannot_get_free_buffer (BT_ERR Failed_to_get_free_buffer s))"
  by (simp add: bt_hci_cmd_create_def bt_buf_get_reserve_def)

lemma bt_hci_cmd_create_result:
  assumes "bt_hci_cmd_create opc pl s = Some (r, s1)"
  shows "(r = None \<longleftrightarrow> free_bufs s = [])
       \<and> (free_bufs s = [] \<longrightarrow>
            s1 = BT_ERR Cannot_get_free_buffer (BT_ERR Failed_to_get_free_buffer s))
       \<and> (free_bufs s \<noteq> [] \<longrightarrow> s1 = s\<lparr>free_bufs := tl (free_bufs s)\<rparr>)"
proof (cases "free_bufs s")
  case Nil
  then show ?thesis
    using assms by (auto simp: bt_hci_cmd_create_def bt_buf_get_reserve_def split: bind_splits)
next
  case (Cons b bs)
  then show ?thesis
    using assms
    by (auto simp: bt_hci_cmd_create_def bt_buf_get_reserve_def Let_def split_beta
        bind_eq_Some_conv)
qed

lemma task_frame_refl: "task_frame s s"
  by (simp add: task_frame_def)

lemma task_frame_trans: "task_frame s s1 \<Longrightarrow> task_frame s1 s2 \<Longrightarrow> task_frame s s2"
  by (simp add: task_frame_def)

lemma task_frame_init_task: "task_frame s s1 \<Longrightarrow> task_frame s (s1\<lparr>init_task := pc\<rparr>)"
  by (simp add: task_frame_def)

lemma bt_hci_cmd_create_frame:
  assumes "bt_hci_cmd_create opc pl s = Some (r, s1)"
  shows "task_frame s s1 \<and> cmd_queue (dev s1) = cmd_queue (dev s) \<and> sems s1 = sems s
       \<and> init_task s1 = init_task s"
  using bt_hci_cmd_create_result [OF assms]
  by (cases "free_bufs s = []") (auto simp: task_frame_def BT_ERR_def)

lemma bt_hci_cmd_send_result:
  assumes "bt_hci_cmd_send opc None s = Some (r, s1)"
  shows "(r = Some ENOBUFS \<longleftrightarrow> free_bufs s = [])
       \<and> (r = None \<longleftrightarrow> free_bufs s \<noteq> [])
       \<and> (free_bufs s = [] \<longrightarrow>
            s1 = BT_ERR Cannot_get_free_buffer (BT_ERR Failed_to_get_free_buffer s))
       \<and> task_frame s s1 \<and> sems s1 = sems s \<and> init_task s1 = init_task s
       \<and> (cmd_queue (dev s1) = cmd_queue (dev s)
           \<or> (\<exists>b. cmd_queue (dev s1) = cmd_queue (dev s) @ [b] \<and> opcode b = opc \<and> sync b = None))"
proof -
  from assms obtain r0 s0 where c: "bt_hci_cmd_create opc 0 s = Some (r0, s0)"
    by (auto simp: bt_hci_cmd_send_def split: bind_splits)
  note res = bt_hci_cmd_create_result [OF c] and fr = bt_hci_cmd_create_frame [OF c]
  show ?thesis
  proof (cases r0)
    case None
    then have "r = Some ENOBUFS" "s1 = s0"
      using assms c by (auto simp: bt_hci_cmd_send_def)
    then show ?thesis using res fr None by auto
  next
    case (Some b)
    then have r: "r = None" "s1 = cmd_queue_put b s0"
      using assms c by (auto simp: bt_hci_cmd_send_def)
    have b: "opcode b = opc \<and> sync b = None"
      using bt_hci_cmd_create_Some [of opc 0 s b s0] c Some by simp
    have "task_frame s0 s1 \<and> sems s1 = sems s0 \<and> init_task s1 = init_task s0
          \<and> cmd_queue (dev s1) = cmd_queue (dev s0) @ [b]"
      using r by (simp add: cmd_queue_put_def task_frame_def)
    then show ?thesis
      using res fr Some r b task_frame_trans [of s s0 s1] by auto
  qed
qed

lemma bt_hci_cmd_send_sync_given:
  "bt_hci_cmd_send_sync p opc (Some b) s
     = Some (Sync_waiting, cmd_queue_put (b\<lparr>sync := Some p\<rparr>) (nano_sem_init p s))"
  by (simp add: bt_hci_cmd_send_sync_def)

lemma bt_hci_cmd_send_sync_result:
  assumes "bt_hci_cmd_send_sync p opc None s = Some (r, s1)"
  shows "(r = Sync_failed ENOBUFS \<longleftrightarrow> free_bufs s = [])
       \<and> (r = Sync_waiting \<longleftrightarrow> free_bufs s \<noteq> [])
       \<and> (free_bufs s = [] \<longrightarrow>
            s1 = BT_ERR Cannot_get_free_buffer (BT_ERR Failed_to_get_free_buffer s))
       \<and> task_frame s s1 \<and> init_task s1 = init_task s
       \<and> (r = Sync_failed ENOBUFS \<longrightarrow> cmd_queue (dev s1) = cmd_queue (dev s) \<and> sems s1 = sems s)
       \<and> (r = Sync_waiting \<longrightarrow>
            (\<exists>b. cmd_queue (dev s1) = cmd_queue (dev s) @ [b] \<and> opcode b = opc \<and> sync b = Some p)
            \<and> sems s1 = (sems s)(p := 0))"
proof -
  from assms obtain r0 s0 where c: "bt_hci_cmd_create opc 0 s = Some (r0, s0)"
    by (auto simp: bt_hci_cmd_send_sync_def split: bind_splits)
  note res = bt_hci_cmd_create_result [OF c] and fr = bt_hci_cmd_create_frame [OF c]
  show ?thesis
  proof (cases r0)
    case None
    then have "r = Sync_failed ENOBUFS" "s1 = s0"
      using assms c by (auto simp: bt_hci_cmd_send_sync_def)
    then show ?thesis using res fr None by auto
  next
    case (Some b)
    then have r: "r = Sync_waiting"
      "s1 = cmd_queue_put (b\<lparr>sync := Some p\<rparr>) (nano_sem_init p s0)"
      using assms c by (auto simp: bt_hci_cmd_send_sync_def)
    have b: "opcode b = opc"
      using bt_hci_cmd_create_Some [of opc 0 s b s0] c Some by simp
    have "task_frame s0 s1 \<and> sems s1 = (sems s0)(p := 0) \<and> init_task s1 = init_task s0
          \<and> cmd_queue (dev s1) = cmd_queue (dev s0) @ [b\<lparr>sync := Some p\<rparr>]"
      using r by (simp add: cmd_queue_put_def nano_sem_init_def task_frame_def)
    then show ?thesis
      using res fr Some r b task_frame_trans [of s s0 s1] by auto
  qed
qed

lemma nano_sem_take_wait_result:
  assumes "nano_sem_take_wait p s = Some s1"
  shows "sems s p \<noteq> 0 \<and> s1 = s\<lparr>sems := (sems s)(p := sems s p - 1)\<rparr>"
  using assms by (auto simp: nano_sem_take_wait_def split: if_splits)

lemma or_byte_keeps_fields:
  "or_byte b p v = Some b1 \<Longrightarrow>
     type b1 = type b \<and> opcode b1 = opcode b \<and> sync b1 = sync b \<and> len b1 = len b
     \<and> data b1 = data b \<and> length (buf b1) = length (buf b)"
  by (auto simp: or_byte_def split: bind_splits dest!: store_keeps_fields)

lemma store_bytes_keeps_fields:
  "store_bytes b p xs = Some b1 \<Longrightarrow>
     type b1 = type b \<and> opcode b1 = opcode b \<and> sync b1 = sync b \<and> len b1 = len b
     \<and> data b1 = data b \<and> length (buf b1) = length (buf b)"
proof (induction xs arbitrary: b p)
  case Nil
  then show ?case by simp
next
  case (Cons x xs)
  from Cons.prems obtain b0 where
    a: "store b p x = Some b0" and r: "store_bytes b0 (p + 1) xs = Some b1"
    by (auto split: bind_splits)
  show ?case
    using store_keeps_fields [OF a] Cons.IH [OF r] by simp
qed

lemma set_event_mask_params_opcode:
  assumes "set_event_mask_params d b = Some b1"
  shows "opcode b1 = opcode b"
proof -
  let ?b0 = "snd (bt_buf_add b sizeof_cp_set_event_mask)"
  have o: "opcode ?b0 = opcode b" by (simp add: bt_buf_add_def)
  from assms obtain c1 c2 c3 c4 c5 c6 c7 c8 c9 ev where
    "store_bytes ?b0 ev (replicate 8 0) = Some c1"
    "or_byte c1 ev 0x10 = Some c2" "or_byte c2 (ev + 1) 0x08 = Some c3"
    "or_byte c3 (ev + 1) 0x20 = Some c4" "or_byte c4 (ev + 1) 0x40 = Some c5"
    "or_byte c5 (ev + 1) 0x80 = Some c6" "or_byte c6 (ev + 2) 0x04 = Some c7"
    "or_byte c7 (ev + 3) 0x02 = Some c8" "or_byte c8 (ev + 7) 0x20 = Some c9"
    and fin: "b1 = c9 \<or> (\<exists>c10. or_byte c9 ev 0x80 = Some c10 \<and> or_byte c10 (ev + 5) 0x80 = Some b1)"
    unfolding set_event_mask_params_def Let_def split_beta
    by (auto simp: bind_eq_Some_conv split: if_splits)
  then have "opcode c9 = opcode b"
    using o by (auto dest!: store_bytes_keeps_fields or_byte_keeps_fields)
  then show ?thesis
    using fin by (auto dest!: or_byte_keeps_fields)
qed

lemma write_le_host_supp_params_opcode:
  assumes "write_le_host_supp_params b = Some b1"
  shows "opcode b1 = opcode b"
  using assms unfolding write_le_host_supp_params_def Let_def split_beta
  by (auto simp: bind_eq_Some_conv bt_buf_add_def dest!: store_keeps_fields)

text \<open>The step of \<^verbatim>\<open>hci_init\<close> at each statement.\<close>

lemma send_then:
  assumes "(bt_hci_cmd_send opc None s \<bind> (\<lambda>(r, s1). Some (s1\<lparr>init_task := pc\<rparr>))) = Some s2"
  shows "task_frame s s2 \<and> sems s2 = sems s \<and> init_task s2 = pc
       \<and> (free_bufs s = [] \<longrightarrow>
            s2 = (BT_ERR Cannot_get_free_buffer (BT_ERR Failed_to_get_free_buffer s))\<lparr>init_task := pc\<rparr>)
       \<and> (cmd_queue (dev s2) = cmd_queue (dev s)
           \<or> (\<exists>b. cmd_queue (dev s2) = cmd_queue (dev s) @ [b] \<and> opcode b = opc \<and> sync b = None))"
proof -
  from assms obtain r s1 where
    a: "bt_hci_cmd_send opc None s = Some (r, s1)" and s2: "s2 = s1\<lparr>init_task := pc\<rparr>"
    by (auto simp: bind_eq_Some_conv)
  show ?thesis
    using bt_hci_cmd_send_result [OF a] unfolding s2
    by (auto simp: task_frame_def)
qed

lemma send_then_async:
  assumes "(bt_hci_cmd_send opc None s \<bind> (\<lambda>(r, s1). Some (s1\<lparr>init_task := pc\<rparr>))) = Some s2"
  shows "task_frame s s2 \<and> init_task s2 = pc \<and> async_sent opc s s2"
  using send_then [OF assms] by (simp add: async_sent_def)

lemma wait_then:
  assumes "(nano_sem_take_wait q s \<bind> (\<lambda>s1. Some (s1\<lparr>init_task := pc\<rparr>))) = Some s2"
  shows "task_frame s s2 \<and> init_task s2 = pc \<and> woken q s s2"
proof -
  from assms obtain s1 where
    a: "nano_sem_take_wait q s = Some s1" and s2: "s2 = s1\<lparr>init_task := pc\<rparr>"
    by (auto simp: bind_eq_Some_conv)
  show ?thesis
    using nano_sem_take_wait_result [OF a] unfolding s2
    by (simp add: task_frame_def woken_def)
qed

lemma sync_send_created:
  assumes c: "bt_hci_cmd_create opc pl s = Some (Some b, s0)"
    and o: "opcode b1 = opcode b"
    and s2: "s2 = (snd (the (bt_hci_cmd_send_sync p opc (Some b1) s0)))\<lparr>init_task := pc\<rparr>"
  shows "task_frame s s2 \<and> init_task s2 = pc \<and> sync_queued p opc s s2 \<and> free_bufs s \<noteq> []"
proof -
  have f: "free_bufs s \<noteq> []" using bt_hci_cmd_create_result [OF c] by simp
  have b: "opcode b = opc" using bt_hci_cmd_create_Some [OF c] by simp
  have "task_frame s0 s2 \<and> sems s2 = (sems s0)(p := 0)
        \<and> cmd_queue (dev s2) = cmd_queue (dev s0) @ [b1\<lparr>sync := Some p\<rparr>]"
    unfolding s2 bt_hci_cmd_send_sync_given
    by (simp add: cmd_queue_put_def nano_sem_init_def task_frame_def)
  then show ?thesis
    using bt_hci_cmd_create_frame [OF c] task_frame_trans [of s s0 s2] o b f
    by (auto simp: sync_queued_def s2)
qed

lemma hci_init_effect:
  assumes "hci_init p s = Some s1"
  shows "task_frame s s1 \<and>
    (case init_task s of
       Init_not_started \<Rightarrow> False
     | Init_reset \<Rightarrow>
         init_task s1 = Init_read_local_features \<and> async_sent BT_HCI_OP_RESET s s1
     | Init_read_local_features \<Rightarrow>
         init_task s1 = Init_read_local_version \<and> async_sent BT_HCI_OP_READ_LOCAL_FEATURES s s1
     | Init_read_local_version \<Rightarrow>
         init_task s1 = Init_read_bd_addr \<and> async_sent BT_HCI_OP_READ_LOCAL_VERSION_INFO s s1
     | Init_read_bd_addr \<Rightarrow>
         (if free_bufs s = [] then init_task s1 = Init_le_check \<and> untouched s s1
          else init_task s1 = Init_wait_bd_addr p \<and> sync_queued p BT_HCI_OP_READ_BD_ADDR s s1)
     | Init_wait_bd_addr q \<Rightarrow> init_task s1 = Init_le_check \<and> woken q s s1
     | Init_le_check \<Rightarrow>
         init_task s1 = (if lmp_le_capable (dev s) then Init_le_read_local_features
                         else Init_returned (Some ENODEV))
         \<and> untouched s s1
     | Init_le_read_local_features \<Rightarrow>
         init_task s1 = Init_le_read_buffer_size
         \<and> async_sent BT_HCI_OP_LE_READ_LOCAL_FEATURES s s1
     | Init_le_read_buffer_size \<Rightarrow>
         init_task s1 = Init_set_event_mask \<and> async_sent BT_HCI_OP_LE_READ_BUFFER_SIZE s s1
     | Init_set_event_mask \<Rightarrow>
         (if free_bufs s = [] then init_task s1 = Init_returned (Some ENOBUFS) \<and> untouched s s1
          else init_task s1 = Init_wait_set_event_mask p
               \<and> sync_queued p BT_HCI_OP_SET_EVENT_MASK s s1)
     | Init_wait_set_event_mask q \<Rightarrow> init_task s1 = Init_bredr \<and> woken q s s1
     | Init_bredr \<Rightarrow>
         init_task s1 = (if lmp_bredr_capable (dev s) then Init_write_le_host_supp
                         else Init_returned None)
         \<and> async_sent BT_HCI_OP_READ_BUFFER_SIZE s s1
     | Init_write_le_host_supp \<Rightarrow>
         (if free_bufs s = [] then init_task s1 = Init_returned (Some ENOBUFS) \<and> untouched s s1
          else init_task s1 = Init_wait_write_le_host_supp p
               \<and> sync_queued p BT_HCI_OP_LE_WRITE_LE_HOST_SUPP s s1)
     | Init_wait_write_le_host_supp q \<Rightarrow> init_task s1 = Init_returned None \<and> woken q s s1
     | Init_returned r \<Rightarrow> False)"
proof (cases "init_task s")
  case Init_not_started
  then show ?thesis using assms by (simp add: hci_init_def)
next
  case Init_reset
  then show ?thesis using assms send_then_async [of BT_HCI_OP_RESET s _ s1]
    by (simp add: hci_init_def)
next
  case Init_read_local_features
  then show ?thesis using assms send_then_async [of BT_HCI_OP_READ_LOCAL_FEATURES s _ s1]
    by (simp add: hci_init_def)
next
  case Init_read_local_version
  then show ?thesis using assms send_then_async [of BT_HCI_OP_READ_LOCAL_VERSION_INFO s _ s1]
    by (simp add: hci_init_def)
next
  case Init_read_bd_addr
  with assms obtain r s0 where
    a: "bt_hci_cmd_send_sync p BT_HCI_OP_READ_BD_ADDR None s = Some (r, s0)"
    and k: "(case r of Sync_failed e \<Rightarrow> Some (s0\<lparr>init_task := Init_le_check\<rparr>)
             | Sync_waiting \<Rightarrow> Some (s0\<lparr>init_task := Init_wait_bd_addr p\<rparr>)) = Some s1"
    by (auto simp: hci_init_def bind_eq_Some_conv)
  note res = bt_hci_cmd_send_sync_result [OF a]
  show ?thesis
  proof (cases "free_bufs s = []")
    case True
    then have "r = Sync_failed ENOBUFS" using res by simp
    then show ?thesis
      using res True Init_read_bd_addr k
      by (auto simp: task_frame_def untouched_def)
  next
    case False
    then have "r = Sync_waiting" using res by simp
    then show ?thesis
      using res False Init_read_bd_addr k
      by (auto simp: task_frame_def sync_queued_def)
  qed
next
  case (Init_wait_bd_addr q)
  then show ?thesis using assms wait_then [of q s _ s1]
    by (simp add: hci_init_def)
next
  case Init_le_check
  then show ?thesis using assms
    by (auto simp: hci_init_def task_frame_def untouched_def BT_ERR_def split: if_splits)
next
  case Init_le_read_local_features
  then show ?thesis using assms send_then_async [of BT_HCI_OP_LE_READ_LOCAL_FEATURES s _ s1]
    by (simp add: hci_init_def)
next
  case Init_le_read_buffer_size
  then show ?thesis using assms send_then_async [of BT_HCI_OP_LE_READ_BUFFER_SIZE s _ s1]
    by (simp add: hci_init_def)
next
  case Init_set_event_mask
  with assms obtain r s0 where
    c: "bt_hci_cmd_create BT_HCI_OP_SET_EVENT_MASK 8 s = Some (r, s0)"
    by (auto simp: hci_init_def bind_eq_Some_conv)
  show ?thesis
  proof (cases r)
    case None
    then have "s1 = s0\<lparr>init_task := Init_returned (Some ENOBUFS)\<rparr>"
      using assms Init_set_event_mask c by (simp add: hci_init_def)
    then show ?thesis
      using bt_hci_cmd_create_result [OF c] bt_hci_cmd_create_frame [OF c] None Init_set_event_mask
      by (simp add: task_frame_def untouched_def)
  next
    case (Some b)
    with assms Init_set_event_mask c obtain b1 where
      b1: "set_event_mask_params (dev s0) b = Some b1"
      and s1: "s1 = (snd (the (bt_hci_cmd_send_sync p BT_HCI_OP_SET_EVENT_MASK (Some b1) s0)))
                 \<lparr>init_task := Init_wait_set_event_mask p\<rparr>"
      by (auto simp: hci_init_def bind_eq_Some_conv bt_hci_cmd_send_sync_given)
    show ?thesis
      using sync_send_created [OF c [unfolded Some] set_event_mask_params_opcode [OF b1] s1]
        Init_set_event_mask
      by simp
  qed
next
  case (Init_wait_set_event_mask q)
  then show ?thesis using assms wait_then [of q s _ s1]
    by (simp add: hci_init_def)
next
  case Init_bredr
  show ?thesis
  proof (cases "lmp_bredr_capable (dev s)")
    case False
    then show ?thesis using assms Init_bredr
      by (auto simp: hci_init_def task_frame_def async_sent_def)
  next
    case True
    show ?thesis
    proof (cases "le_mtu (dev s) = 0")
      case z: True
      then show ?thesis
        using assms Init_bredr True send_then_async [of BT_HCI_OP_READ_BUFFER_SIZE s _ s1]
        by (simp add: hci_init_def)
    next
      case False
      then show ?thesis using assms Init_bredr True
        by (auto simp: hci_init_def task_frame_def async_sent_def)
    qed
  qed
next
  case Init_write_le_host_supp
  with assms obtain r s0 where
    c: "bt_hci_cmd_create BT_HCI_OP_LE_WRITE_LE_HOST_SUPP (ucast sizeof_cp_write_le_host_supp) s
          = Some (r, s0)"
    by (auto simp: hci_init_def bind_eq_Some_conv)
  show ?thesis
  proof (cases r)
    case None
    then have "s1 = s0\<lparr>init_task := Init_returned (Some ENOBUFS)\<rparr>"
      using assms Init_write_le_host_supp c by (simp add: hci_init_def)
    then show ?thesis
      using bt_hci_cmd_create_result [OF c] bt_hci_cmd_create_frame [OF c] None
        Init_write_le_host_supp
      by (simp add: task_frame_def untouched_def)
  next
    case (Some b)
    with assms Init_write_le_host_supp c obtain b1 where
      b1: "write_le_host_supp_params b = Some b1"
      and s1: "s1 = (snd (the (bt_hci_cmd_send_sync p BT_HCI_OP_LE_WRITE_LE_HOST_SUPP (Some b1) s0)))
                 \<lparr>init_task := Init_wait_write_le_host_supp p\<rparr>"
      by (auto simp: hci_init_def bind_eq_Some_conv bt_hci_cmd_send_sync_given)
    show ?thesis
      using sync_send_created [OF c [unfolded Some] write_le_host_supp_params_opcode [OF b1] s1]
        Init_write_le_host_supp
      by simp
  qed
next
  case (Init_wait_write_le_host_supp q)
  then show ?thesis using assms wait_then [of q s _ s1]
    by (simp add: hci_init_def)
next
  case (Init_returned r)
  then show ?thesis using assms by (simp add: hci_init_def)
qed

subsection \<open>Bring-up: the capability check\<close>

text \<open>
  C2, as the code has it. A step of \<^verbatim>\<open>hci_init\<close> returns \<^verbatim>\<open>-ENODEV\<close> exactly when the task
  stands at the capability check and the LE bit of \<^verbatim>\<open>features[4]\<close> is clear, whatever the
  \<^verbatim>\<open>NO_BREDR\<close> bit is; so it does for \<^verbatim>\<open>features[4] = 0\<close>. The check is the statement after
  the \<^verbatim>\<open>READ_BD_ADDR\<close> barrier: the task reaches it from that synchronous send only.
\<close>

theorem nodevice_iff_le_clear:
  assumes "hci_init p s = Some s1"
  shows "(init_task s1 = Init_returned (Some ENODEV)
            \<longleftrightarrow> init_task s = Init_le_check \<and> features (dev s) ! 4 AND BT_LMP_LE = 0)
       \<and> (init_task s = Init_le_check \<and> features (dev s) ! 4 = 0
            \<longrightarrow> init_task s1 = Init_returned (Some ENODEV))
       \<and> (init_task s1 = Init_le_check
            \<longrightarrow> init_task s = Init_read_bd_addr \<or> (\<exists>q. init_task s = Init_wait_bd_addr q))"
  using hci_init_effect [OF assms]
  by (cases "init_task s") (auto simp: lmp_le_capable_def split: if_splits)

lemma le_check_runs: "\<exists>s1. hci_init 0 (le_check_state f) = Some s1"
  by (simp add: hci_init_def le_check_state_def)

theorem nodevice_iff_le_clear_witness:
  "init_task (le_check_state 0) = Init_le_check \<and> features (dev (le_check_state 0)) ! 4 = 0
   \<and> (\<exists>s1. hci_init 0 (le_check_state 0) = Some s1 \<and> init_task s1 = Init_returned (Some ENODEV))"
proof -
  obtain s1 where r: "hci_init 0 (le_check_state 0) = Some s1"
    using le_check_runs by blast
  have f: "init_task (le_check_state 0) = Init_le_check"
    "features (dev (le_check_state 0)) ! 4 = 0"
    by (simp_all add: le_check_state_def boot_def)
  show ?thesis
    using nodevice_iff_le_clear [OF r] r f by simp
qed

text \<open>
  The claim as the specification words it fails: with \<^verbatim>\<open>features[4] = 0x20\<close> the
  \<^verbatim>\<open>NO_BREDR\<close> bit is set, so "\<^verbatim>\<open>NO_BREDR\<close> clear and LE clear" does not hold, and the
  sequence aborts with \<^verbatim>\<open>-ENODEV\<close> all the same.
\<close>

theorem nodevice_with_no_bredr_set:
  "init_task (le_check_state 0x20) = Init_le_check
   \<and> features (dev (le_check_state 0x20)) ! 4 AND BT_LMP_NO_BREDR \<noteq> 0
   \<and> features (dev (le_check_state 0x20)) ! 4 AND BT_LMP_LE = 0
   \<and> (\<exists>s1. hci_init 0 (le_check_state 0x20) = Some s1
         \<and> init_task s1 = Init_returned (Some ENODEV))"
  by (simp add: hci_init_def le_check_state_def boot_def lmp_le_capable_def const_defs)

subsection \<open>Bring-up: sends that fail\<close>

lemma failed_send_step:
  assumes "hci_init p s = Some s1" and "free_bufs s = []"
    and "after_failed_send (init_task s) = Some pc"
  shows "s1 = (BT_ERR Cannot_get_free_buffer (BT_ERR Failed_to_get_free_buffer s))\<lparr>init_task := pc\<rparr>"
proof (cases "init_task s = Init_read_bd_addr")
  case True
  with assms obtain r s0 where
    a: "bt_hci_cmd_send_sync p BT_HCI_OP_READ_BD_ADDR None s = Some (r, s0)"
    and k: "(case r of Sync_failed e \<Rightarrow> Some (s0\<lparr>init_task := Init_le_check\<rparr>)
             | Sync_waiting \<Rightarrow> Some (s0\<lparr>init_task := Init_wait_bd_addr p\<rparr>)) = Some s1"
    by (auto simp: hci_init_def bind_eq_Some_conv)
  have "r = Sync_failed ENOBUFS" using bt_hci_cmd_send_sync_result [OF a] assms(2) by simp
  then show ?thesis
    using bt_hci_cmd_send_sync_result [OF a] assms(2,3) k True by auto
next
  case False
  then obtain opc where
    "(bt_hci_cmd_send opc None s \<bind> (\<lambda>(r, s1). Some (s1\<lparr>init_task := pc\<rparr>))) = Some s1"
    using assms(1,3) by (cases "init_task s") (auto simp: hci_init_def)
  then show ?thesis
    using send_then [of opc s pc s1] assms(2) by simp
qed

lemma empty_pool_runs:
  "\<exists>s1. hci_init 0 (empty_pool_state Init_reset) = Some s1"
  "\<exists>s1. hci_init 0 (empty_pool_state Init_read_bd_addr) = Some s1"
  "\<exists>s1. hci_init 0 (empty_pool_state Init_set_event_mask) = Some s1"
  by (simp_all add: hci_init_def empty_pool_state_def boot_def drv0_def bt_hci_cmd_send_def
      bt_hci_cmd_send_sync_def bt_hci_cmd_create_def bt_buf_get_reserve_def)

subsection \<open>The receive fiber, step by step\<close>

lemma hci_cmd_done_moves:
  assumes "hci_cmd_done opc s = Some s1"
  shows "fiber_frame s s1 \<and> sent_moved (Some opc) s s1
       \<and> ncmd (dev s1) = ncmd (dev s) \<and> ncmd_sem (dev s1) = ncmd_sem (dev s)
       \<and> rx_fiber s1 = rx_fiber s"
proof -
  from assms obtain c where c: "sent_cmd (dev s) = Some c"
    by (cases "sent_cmd (dev s)") (simp_all add: hci_cmd_done_def)
  show ?thesis
  proof (cases "opcode c = opc")
    case False
    then have "s1 = BT_ERR (Unexpected_completion opc) s"
      using assms c by (simp add: hci_cmd_done_def)
    then show ?thesis
      by (simp add: BT_ERR_def fiber_frame_def sent_moved_def)
  next
    case True
    then show ?thesis
      using assms c
      by (cases "sync c")
        (auto simp: hci_cmd_done_def Let_def bt_buf_put_def nano_sem_give_def
          fiber_frame_def sent_moved_def)
  qed
qed

lemma ncmd_refill_moves:
  "fiber_frame s (ncmd_refill n s) \<and> credit_moved s (ncmd_refill n s)
   \<and> sent_cmd (dev (ncmd_refill n s)) = sent_cmd (dev s) \<and> sems (ncmd_refill n s) = sems s
   \<and> rx_fiber (ncmd_refill n s) = rx_fiber s"
  by (simp add: ncmd_refill_def fiber_frame_def credit_moved_def)

lemma fiber_frame_trans: "fiber_frame s t \<Longrightarrow> fiber_frame t u \<Longrightarrow> fiber_frame s u"
  by (simp add: fiber_frame_def)

lemma sent_moved_pre:
  "sent_cmd (dev t) = sent_cmd (dev s) \<Longrightarrow> sems t = sems s \<Longrightarrow> sent_moved e t u
     \<Longrightarrow> sent_moved e s u"
  unfolding sent_moved_def by (cases "sent_cmd (dev s)") (auto split: option.splits)

lemma sent_moved_post:
  "sent_moved e s t \<Longrightarrow> sent_cmd (dev u) = sent_cmd (dev t) \<Longrightarrow> sems u = sems t
     \<Longrightarrow> sent_moved e s u"
  unfolding sent_moved_def by (cases "sent_cmd (dev s)") (auto split: option.splits)

lemma credit_moved_pre:
  "ncmd (dev t) = ncmd (dev s) \<Longrightarrow> ncmd_sem (dev t) = ncmd_sem (dev s) \<Longrightarrow> credit_moved t u
     \<Longrightarrow> credit_moved s u"
  by (simp add: credit_moved_def)

lemma credit_moved_post:
  "credit_moved s t \<Longrightarrow> ncmd (dev u) = ncmd (dev t) \<Longrightarrow> ncmd_sem (dev u) = ncmd_sem (dev t)
     \<Longrightarrow> credit_moved s u"
  by (simp add: credit_moved_def)

lemma moves_compose:
  assumes "fiber_frame s t" "sent_cmd (dev t) = sent_cmd (dev s)" "sems t = sems s"
    "ncmd (dev t) = ncmd (dev s)" "ncmd_sem (dev t) = ncmd_sem (dev s)" "rx_fiber t = rx_fiber s"
    and "hci_cmd_done opc t = Some u"
  shows "fiber_frame s (ncmd_refill n u) \<and> credit_moved s (ncmd_refill n u)
       \<and> sent_moved (Some opc) s (ncmd_refill n u) \<and> rx_fiber (ncmd_refill n u) = rx_fiber s"
proof -
  note d = hci_cmd_done_moves [OF assms(7)] and r = ncmd_refill_moves [of u n]
  have f: "fiber_frame s (ncmd_refill n u)"
    using assms(1) d r fiber_frame_trans by blast
  have "credit_moved t (ncmd_refill n u)"
    using d r credit_moved_pre [of u t "ncmd_refill n u"] by simp
  then have c: "credit_moved s (ncmd_refill n u)"
    using assms(4,5) credit_moved_pre by blast
  have "sent_moved (Some opc) t (ncmd_refill n u)"
    using d r sent_moved_post [of "Some opc" t u "ncmd_refill n u"] by simp
  then have m: "sent_moved (Some opc) s (ncmd_refill n u)"
    using assms(2,3) sent_moved_pre by blast
  show ?thesis using f c m d r assms(6) by simp
qed

lemma hci_cmd_complete_moves:
  assumes "hci_cmd_complete b s = Some (b1, s1)"
  shows "\<exists>opc. load_le16 b (data b + 1) = Some opc
       \<and> fiber_frame s s1 \<and> credit_moved s s1 \<and> sent_moved (Some opc) s s1
       \<and> rx_fiber s1 = rx_fiber s"
proof -
  from assms obtain opc t1 t2 n where
    o: "load_le16 b (data b + 1) = Some opc"
    and sw: "hci_cmd_complete_switch opc (snd (bt_buf_pull b sizeof_evt_cmd_complete)) s = Some t1"
    and dn: "hci_cmd_done opc t1 = Some t2" and s1: "s1 = ncmd_refill n t2"
    by (auto elim!: hci_cmd_complete_parts)
  have "fiber_frame s t1" using switch_frame [OF sw] by (simp add: fiber_frame_def)
  then show ?thesis
    using moves_compose [OF _ _ _ _ _ _ dn, of s n] switch_frame [OF sw] o s1 by auto
qed

lemma hci_cmd_status_moves:
  assumes "hci_cmd_status b s = Some (b1, s1)"
  shows "\<exists>opc. load_le16 b (data b + 2) = Some opc
       \<and> fiber_frame s s1 \<and> credit_moved s s1 \<and> sent_moved (Some opc) s s1
       \<and> rx_fiber s1 = rx_fiber s"
proof -
  from assms obtain opc t2 n where
    o: "load_le16 b (data b + 2) = Some opc"
    and dn: "hci_cmd_done opc (BT_ERR (Unknown_opcode opc) s) = Some t2"
    and s1: "s1 = ncmd_refill n t2"
    by (auto elim!: hci_cmd_status_parts)
  have "fiber_frame s (BT_ERR (Unknown_opcode opc) s)"
    by (simp add: fiber_frame_def BT_ERR_def)
  then show ?thesis
    using moves_compose [OF _ _ _ _ _ _ dn, of s n] o s1 by (auto simp: BT_ERR_def)
qed

lemma pull_load_le16: "load_le16 (snd (bt_buf_pull b n)) p = load_le16 b p"
  by (simp add: load_le16_def pull_load)

lemma hci_event_moves:
  assumes "hci_event b s = Some s1" and "type b = BT_EVT"
  shows "fiber_frame s s1 \<and> credit_moved s s1 \<and> sent_moved (completion_opcode b) s s1
       \<and> rx_fiber s1 = rx_fiber s"
proof -
  let ?b1 = "snd (bt_buf_pull b sizeof_evt_hdr)"
  from assms(1) obtain evt b2 t where
    e: "load b (data b) = Some evt"
    and h: "(if evt = BT_HCI_EVT_CMD_COMPLETE then hci_cmd_complete ?b1 s
             else if evt = BT_HCI_EVT_CMD_STATUS then hci_cmd_status ?b1 s
             else Some (?b1, BT_ERR (Unknown_event evt) s)) = Some (b2, t)"
    and s1: "s1 = bt_buf_put b2 t"
    unfolding hci_event_def Let_def by (auto simp: bind_eq_Some_conv)
  have d1: "data ?b1 = data b + sizeof_evt_hdr" by (simp add: bt_buf_pull_def)
  have put: "fiber_frame t s1 \<and> dev s1 = dev t \<and> sems s1 = sems t \<and> rx_fiber s1 = rx_fiber t"
    unfolding s1 by (simp add: bt_buf_put_def fiber_frame_def)
  have "fiber_frame s t \<and> credit_moved s t \<and> sent_moved (completion_opcode b) s t
       \<and> rx_fiber t = rx_fiber s"
  proof (cases "evt = BT_HCI_EVT_CMD_COMPLETE")
    case True
    then have "hci_cmd_complete ?b1 s = Some (b2, t)" using h by simp
    from hci_cmd_complete_moves [OF this] obtain opc where
      "load_le16 b (data b + sizeof_evt_hdr + 1) = Some opc"
      "fiber_frame s t \<and> credit_moved s t \<and> sent_moved (Some opc) s t \<and> rx_fiber t = rx_fiber s"
      by (auto simp: d1 pull_load_le16)
    then show ?thesis
      using e True assms(2) by (simp add: completion_opcode_def)
  next
    case False
    show ?thesis
    proof (cases "evt = BT_HCI_EVT_CMD_STATUS")
      case True
      then have "hci_cmd_status ?b1 s = Some (b2, t)" using h False by simp
      from hci_cmd_status_moves [OF this] obtain opc where
        "load_le16 b (data b + sizeof_evt_hdr + 2) = Some opc"
        "fiber_frame s t \<and> credit_moved s t \<and> sent_moved (Some opc) s t \<and> rx_fiber t = rx_fiber s"
        by (auto simp: d1 pull_load_le16)
      then show ?thesis
        using e True False assms(2) by (simp add: completion_opcode_def)
    next
      case ns: False
      then have "t = BT_ERR (Unknown_event evt) s" using h False by simp
      then show ?thesis
        by (simp add: BT_ERR_def fiber_frame_def credit_moved_def sent_moved_def)
    qed
  qed
  then show ?thesis
    using put fiber_frame_trans [of s t s1] credit_moved_post [of s t s1]
      sent_moved_post [of "completion_opcode b" s t s1]
    by simp
qed

lemma hci_acl_moves:
  assumes "hci_acl b s = Some s1"
  shows "fiber_frame s s1 \<and> dev s1 = dev s \<and> sems s1 = sems s \<and> rx_fiber s1 = rx_fiber s"
  using assms unfolding hci_acl_def Let_def
  by (auto simp: bind_eq_Some_conv bt_buf_put_def BT_ERR_def fiber_frame_def split: if_splits)

lemma completion_opcode_not_evt: "type b \<noteq> BT_EVT \<Longrightarrow> completion_opcode b = None"
  by (simp add: completion_opcode_def)

lemma hci_rx_fiber_moves:
  assumes "hci_rx_fiber s = Some s1"
  shows "\<exists>b q. rx_queue (dev s) = b # q \<and> rx_fiber s = Rx_get_buf
       \<and> fiber_frame s s1 \<and> credit_moved s s1 \<and> sent_moved (completion_opcode b) s s1"
proof -
  from assms have pc: "rx_fiber s = Rx_get_buf"
    by (cases "rx_fiber s") (simp_all add: hci_rx_fiber_def)
  with assms obtain b q where q: "rx_queue (dev s) = b # q"
    by (cases "rx_queue (dev s)") (simp_all add: hci_rx_fiber_def)
  let ?t = "s\<lparr>dev := (dev s)\<lparr>rx_queue := q\<rparr>\<rparr>"
  have t: "fiber_frame s ?t \<and> sent_cmd (dev ?t) = sent_cmd (dev s) \<and> sems ?t = sems s
         \<and> ncmd (dev ?t) = ncmd (dev s) \<and> ncmd_sem (dev ?t) = ncmd_sem (dev s)"
    by (simp add: fiber_frame_def)
  have "fiber_frame ?t s1 \<and> credit_moved ?t s1 \<and> sent_moved (completion_opcode b) ?t s1"
  proof (cases "type b = BT_ACL")
    case True
    then have "hci_acl b ?t = Some s1"
      using assms pc q by (simp add: hci_rx_fiber_def Let_def)
    from hci_acl_moves [OF this] show ?thesis
      by (simp add: credit_moved_def sent_moved_def)
  next
    case False
    show ?thesis
    proof (cases "type b = BT_EVT")
      case True
      then have "hci_event b ?t = Some s1"
        using assms pc q by (simp add: hci_rx_fiber_def Let_def)
      from hci_event_moves [OF this True] show ?thesis by simp
    next
      case ne: False
      then have "s1 = (BT_ERR Unknown_buf_type ?t)\<lparr>rx_fiber := Rx_returned\<rparr>"
        using assms pc q False by (simp add: hci_rx_fiber_def Let_def)
      then show ?thesis
        by (simp add: BT_ERR_def fiber_frame_def credit_moved_def sent_moved_def)
    qed
  qed
  then show ?thesis
    using t pc q fiber_frame_trans [of s ?t s1] credit_moved_pre [of ?t s s1]
      sent_moved_pre [of ?t s "completion_opcode b" s1]
    by simp
qed

subsection \<open>Runs and monitors\<close>

lemma credit_accept_append:
  "credit_accept p (xs @ ys) \<longleftrightarrow> credit_accept p xs \<and> credit_accept (foldl credit_step p xs) ys"
  by (induction xs arbitrary: p) auto

lemma sync_accept_append:
  "sync_accept m (xs @ ys) \<longleftrightarrow> sync_accept m xs \<and> sync_accept (foldl sync_step m xs) ys"
  by (induction xs arbitrary: m) auto

lemma fold_put_frame:
  "dev (fold (\<lambda>i. bt_buf_put (f i)) xs s) = dev s
   \<and> sems (fold (\<lambda>i. bt_buf_put (f i)) xs s) = sems s
   \<and> cmd_fiber (fold (\<lambda>i. bt_buf_put (f i)) xs s) = cmd_fiber s
   \<and> drv_sent (fold (\<lambda>i. bt_buf_put (f i)) xs s) = drv_sent s"
  by (induction xs arbitrary: s) (simp_all add: bt_buf_put_def)

lemma bt_init_effect:
  "(drv (dev s) = None \<and> bt_init s = s\<lparr>init_task := Init_returned (Some ENODEV)\<rparr>)
   \<or> (cmd_fiber (bt_init s) = Cmd_take_sem \<and> ncmd (dev (bt_init s)) = 1
       \<and> ncmd_sem (dev (bt_init s)) = 1 \<and> cmd_queue (dev (bt_init s)) = []
       \<and> sent_cmd (dev (bt_init s)) = sent_cmd (dev s) \<and> sems (bt_init s) = sems s
       \<and> drv_sent (bt_init s) = drv_sent s
       \<and> (init_task (bt_init s) = Init_reset \<or> (\<exists>e. init_task (bt_init s) = Init_returned e)))"
proof (cases "drv (dev s)")
  case None
  then show ?thesis by (simp add: bt_init_def)
next
  case (Some d)
  let ?f = "free_queue_init s"
  have f: "dev ?f = dev s \<and> sems ?f = sems s \<and> cmd_fiber ?f = cmd_fiber s
           \<and> drv_sent ?f = drv_sent s"
    unfolding free_queue_init_def
    using fold_put_frame [of "\<lambda>i. buffers s ! i" "[0..<NUM_BUFS]" "s\<lparr>free_bufs := []\<rparr>"]
    by simp
  show ?thesis
    using Some f
    by (cases "open_err d") (simp_all add: bt_init_def Let_def cmd_queue_init_def rx_queue_init_def)
qed

lemma hci_init_pc:
  assumes "hci_init p s = Some s1"
  shows "init_task s \<noteq> Init_not_started \<and> init_task s1 \<noteq> Init_not_started"
  using hci_init_effect [OF assms]
  by (cases "init_task s") (auto split: if_splits)

lemma task_obs_credit:
  "credit_accept p (observe (Task q) s s1) \<and> foldl credit_step p (observe (Task q) s s1) = p"
  by (auto simp: observe_def split: option.splits prod.splits)

lemma rx_obs_credit:
  "credit_accept p (observe Rx_fiber s s1)
   \<and> foldl credit_step p (observe Rx_fiber s s1)
       = (if ncmd_sem (dev s1) = Suc (ncmd_sem (dev s)) then False else p)"
  by (auto simp: observe_def split: option.splits list.splits)

lemma credit_inv_step:
  assumes inv: "credit_inv p s" and st: "step a s = Some s1"
  shows "credit_accept p (observe a s s1) \<and> credit_inv (foldl credit_step p (observe a s s1)) s1"
proof (cases a)
  case (Task q)
  show ?thesis
  proof (cases "init_task s = Init_not_started")
    case True
    then have s1: "s1 = bt_init s" using st Task by (simp add: step_def)
    have ns: "cmd_fiber s = Cmd_not_started" "\<not> p"
      using inv True by (auto simp: credit_inv_def)
    have "credit_inv p s1"
      using bt_init_effect [of s] ns unfolding s1
      by (auto simp: credit_inv_def)
    then show ?thesis unfolding Task using task_obs_credit [of p q s s1] by simp
  next
    case False
    then have h: "hci_init q s = Some s1" using st Task by (simp add: step_def)
    have "task_frame s s1" using hci_init_effect [OF h] by simp
    then have "credit_inv p s1"
      using inv hci_init_pc [OF h] by (simp add: credit_inv_def task_frame_def)
    then show ?thesis unfolding Task using task_obs_credit [of p q s s1] by simp
  qed
next
  case Cmd_fiber
  then have h: "hci_cmd_fiber s = Some s1" using st by (simp add: step_def)
  show ?thesis
  proof (cases "cmd_fiber s")
    case Cmd_not_started
    then show ?thesis using h by (simp add: hci_cmd_fiber_def)
  next
    case Cmd_take_sem
    then have n: "ncmd_sem (dev s) \<noteq> 0"
      and s1: "s1 = s\<lparr>dev := (dev s)\<lparr>ncmd_sem := ncmd_sem (dev s) - 1\<rparr>, cmd_fiber := Cmd_get_buf\<rparr>"
      using h by (auto simp: hci_cmd_fiber_def split: if_splits)
    have "ncmd (dev s) \<noteq> 0 \<and> ncmd_sem (dev s) = 1 \<and> \<not> p"
      using inv Cmd_take_sem n by (auto simp: credit_inv_def)
    then have "credit_inv p s1"
      using inv Cmd_take_sem unfolding s1 by (simp add: credit_inv_def)
    then show ?thesis
      unfolding Cmd_fiber using Cmd_take_sem by (simp add: observe_def)
  next
    case Cmd_get_buf
    then obtain b q where
      s1: "s1 = s\<lparr>dev := (dev s)\<lparr>cmd_queue := q, ncmd := 0, sent_cmd := Some b\<rparr>,
                   drv_sent := drv_sent s @ [b], cmd_fiber := Cmd_take_sem\<rparr>"
      using h by (cases "cmd_queue (dev s)") (auto simp: hci_cmd_fiber_def)
    have i: "ncmd_sem (dev s) = 0 \<and> \<not> p"
      using inv Cmd_get_buf by (simp add: credit_inv_def)
    then have "credit_inv True s1"
      using inv Cmd_get_buf unfolding s1 by (simp add: credit_inv_def)
    then show ?thesis
      unfolding Cmd_fiber using Cmd_get_buf i by (simp add: observe_def)
  qed
next
  case Rx_fiber
  then have h: "hci_rx_fiber s = Some s1" using st by (simp add: step_def)
  from hci_rx_fiber_moves [OF h] have
    f: "fiber_frame s s1" and c: "credit_moved s s1" by auto
  let ?p1 = "if ncmd_sem (dev s1) = Suc (ncmd_sem (dev s)) then False else p"
  have "credit_inv ?p1 s1"
  proof (cases "ncmd_sem (dev s1) = Suc (ncmd_sem (dev s))")
    case True
    then have "ncmd (dev s) = 0 \<and> ncmd (dev s1) = 1" using c by (auto simp: credit_moved_def)
    then show ?thesis
      using inv f True by (auto simp: credit_inv_def fiber_frame_def)
  next
    case False
    then have "ncmd (dev s1) = ncmd (dev s) \<and> ncmd_sem (dev s1) = ncmd_sem (dev s)"
      using c by (auto simp: credit_moved_def)
    then show ?thesis
      using inv f False by (simp add: credit_inv_def fiber_frame_def)
  qed
  then show ?thesis
    unfolding Rx_fiber using rx_obs_credit [of p s s1] by simp
next
  case (Recv b)
  then have "s1 = bt_recv b s" using st by (simp add: step_def)
  then have "credit_inv p s1" using inv by (simp add: credit_inv_def bt_recv_def)
  then show ?thesis unfolding Recv by (simp add: observe_def)
qed

lemma credit_inv_run:
  "credit_inv p s \<Longrightarrow> credit_accept p (trace acts s)"
proof (induction acts arbitrary: p s)
  case Nil
  then show ?case by simp
next
  case (Cons a acts)
  show ?case
  proof (cases "step a s")
    case None
    then show ?thesis by simp
  next
    case (Some s1)
    note st = credit_inv_step [OF Cons.prems Some]
    have "credit_accept (foldl credit_step p (observe a s s1)) (trace acts s1)"
      using Cons.IH st by blast
    then show ?thesis
      using Some st by (simp add: credit_accept_append)
  qed
qed

lemma credit_inv_boot: "credit_inv False (boot d bufs)"
  by (simp add: credit_inv_def boot_def)

lemma credit_pending_refill:
  "credit_accept True (ys @ Handed_to_driver # zs) \<Longrightarrow> Credit_refill \<in> set ys"
proof (induction ys)
  case Nil
  then show ?case by simp
next
  case (Cons y ys)
  then show ?case by (cases y) auto
qed

lemma credit_accept_two_handed:
  assumes "credit_accept p (xs @ Handed_to_driver # ys @ Handed_to_driver # zs)"
  shows "Credit_refill \<in> set ys"
proof -
  have "credit_accept (foldl credit_step p xs) (Handed_to_driver # ys @ Handed_to_driver # zs)"
    using assms by (simp add: credit_accept_append)
  then have "credit_accept True (ys @ Handed_to_driver # zs)" by simp
  then show ?thesis by (rule credit_pending_refill)
qed

subsection \<open>Synchronous sends and the monitor\<close>

lemma sync_bufs_alt:
  "sync_bufs s = filter (\<lambda>b. sync b \<noteq> None) (cmd_queue (dev s))
                 @ (case sent_cmd (dev s) of None \<Rightarrow> []
                    | Some c \<Rightarrow> if sync c \<noteq> None then [c] else [])"
  by (simp add: sync_bufs_def split: option.splits)

lemma sync_bufs_cong:
  "cmd_queue (dev s1) = cmd_queue (dev s) \<Longrightarrow> sent_cmd (dev s1) = sent_cmd (dev s)
     \<Longrightarrow> sync_bufs s1 = sync_bufs s"
  by (simp add: sync_bufs_def)

lemma sync_inv_cong:
  "sync_bufs s1 = sync_bufs s \<Longrightarrow> sems s1 = sems s \<Longrightarrow> init_task s1 = init_task s
     \<Longrightarrow> sync_inv m s1 = sync_inv m s"
  by (simp add: sync_inv_def cong: option.case_cong prod.case_cong)

lemma task_obs_kinds:
  "waiting_for (init_task s) = None \<Longrightarrow> waiting_for (init_task s1) = None
     \<Longrightarrow> observe (Task q) s s1 = []"
  "waiting_for (init_task s) = None \<Longrightarrow> waiting_for (init_task s1) = Some (opc, p)
     \<Longrightarrow> observe (Task q) s s1 = [Sync_call opc]"
  "waiting_for (init_task s) = Some (opc, p) \<Longrightarrow> waiting_for (init_task s1) = None
     \<Longrightarrow> observe (Task q) s s1 = [Sync_ok opc]"
  by (simp_all add: observe_def)

lemma sync_kind_async:
  assumes inv: "sync_inv m s" and fr: "task_frame s s1" and a: "async_sent opc s s1"
    and w: "waiting_for (init_task s) = None" "waiting_for (init_task s1) = None"
  shows "sync_accept m (observe (Task q) s s1)
       \<and> sync_inv (foldl sync_step m (observe (Task q) s s1)) s1"
proof -
  have sc: "sent_cmd (dev s1) = sent_cmd (dev s)" using fr by (simp add: task_frame_def)
  have "filter (\<lambda>b. sync b \<noteq> None) (cmd_queue (dev s1))
        = filter (\<lambda>b. sync b \<noteq> None) (cmd_queue (dev s))"
    using a by (auto simp: async_sent_def)
  then have "sync_bufs s1 = sync_bufs s" using sc by (simp add: sync_bufs_alt)
  then have "sync_inv m s1" using inv w by (simp add: sync_inv_def)
  then show ?thesis using task_obs_kinds(1) [OF w] by simp
qed

lemma sync_kind_untouched:
  assumes inv: "sync_inv m s" and fr: "task_frame s s1" and a: "untouched s s1"
    and w: "waiting_for (init_task s) = None" "waiting_for (init_task s1) = None"
  shows "sync_accept m (observe (Task q) s s1)
       \<and> sync_inv (foldl sync_step m (observe (Task q) s s1)) s1"
proof -
  have "async_sent 0 s s1" using a by (simp add: async_sent_def untouched_def)
  then show ?thesis using sync_kind_async [OF inv fr _ w] by blast
qed

lemma sync_kind_queued:
  assumes inv: "sync_inv m s" and fr: "task_frame s s1" and a: "sync_queued p opc s s1"
    and w: "waiting_for (init_task s) = None" "waiting_for (init_task s1) = Some (opc, p)"
  shows "sync_accept m (observe (Task q) s s1)
       \<and> sync_inv (foldl sync_step m (observe (Task q) s s1)) s1"
proof -
  have sc: "sent_cmd (dev s1) = sent_cmd (dev s)" using fr by (simp add: task_frame_def)
  have e: "sync_bufs s = []" using inv w by (simp add: sync_inv_def)
  from a obtain b where
    b: "cmd_queue (dev s1) = cmd_queue (dev s) @ [b]" "opcode b = opc" "sync b = Some p"
    and z: "sems s1 p = 0"
    by (auto simp: sync_queued_def)
  have "sync_bufs s1 = [b]"
    using e b sc by (auto simp: sync_bufs_alt split: option.splits if_splits)
  then have "sync_inv (Some (opc, False)) s1"
    using w b z by (auto simp: sync_inv_def)
  then show ?thesis using task_obs_kinds(2) [OF w] by simp
qed

lemma sync_kind_woken:
  assumes inv: "sync_inv m s" and fr: "task_frame s s1" and a: "woken p s s1"
    and w: "waiting_for (init_task s) = Some (opc, p)" "waiting_for (init_task s1) = None"
  shows "sync_accept m (observe (Task q) s s1)
       \<and> sync_inv (foldl sync_step m (observe (Task q) s s1)) s1"
proof -
  have sc: "sent_cmd (dev s1) = sent_cmd (dev s)" using fr by (simp add: task_frame_def)
  have n: "sems s p \<noteq> 0" and cq: "cmd_queue (dev s1) = cmd_queue (dev s)"
    using a by (simp_all add: woken_def)
  have m: "m = Some (opc, True)" and e: "sync_bufs s = []"
    using inv w n by (auto simp: sync_inv_def)
  have "sync_bufs s1 = []" using e sync_bufs_cong [OF cq sc] by simp
  then have "sync_inv None s1" using w by (simp add: sync_inv_def)
  then show ?thesis using task_obs_kinds(3) [OF w] m by simp
qed

lemma sync_inv_hci_init:
  assumes inv: "sync_inv m s" and h: "hci_init q s = Some s1"
  shows "sync_accept m (observe (Task q) s s1)
       \<and> sync_inv (foldl sync_step m (observe (Task q) s s1)) s1"
proof -
  note e = hci_init_effect [OF h]
  then have fr: "task_frame s s1" by simp
  note A = sync_kind_async [OF inv fr] and U = sync_kind_untouched [OF inv fr]
    and Q = sync_kind_queued [OF inv fr] and W = sync_kind_woken [OF inv fr]
  show ?thesis
  proof (cases "init_task s")
    case Init_not_started
    then show ?thesis using e by simp
  next
    case Init_reset
    then show ?thesis using e A [of BT_HCI_OP_RESET] by simp
  next
    case Init_read_local_features
    then show ?thesis using e A [of BT_HCI_OP_READ_LOCAL_FEATURES] by simp
  next
    case Init_read_local_version
    then show ?thesis using e A [of BT_HCI_OP_READ_LOCAL_VERSION_INFO] by simp
  next
    case Init_read_bd_addr
    then show ?thesis
      using e U Q [of q BT_HCI_OP_READ_BD_ADDR] by (cases "free_bufs s = []") simp_all
  next
    case (Init_wait_bd_addr p)
    then show ?thesis using e W [of p BT_HCI_OP_READ_BD_ADDR] by simp
  next
    case Init_le_check
    then show ?thesis using e U by (cases "lmp_le_capable (dev s)") simp_all
  next
    case Init_le_read_local_features
    then show ?thesis using e A [of BT_HCI_OP_LE_READ_LOCAL_FEATURES] by simp
  next
    case Init_le_read_buffer_size
    then show ?thesis using e A [of BT_HCI_OP_LE_READ_BUFFER_SIZE] by simp
  next
    case Init_set_event_mask
    then show ?thesis
      using e U Q [of q BT_HCI_OP_SET_EVENT_MASK] by (cases "free_bufs s = []") simp_all
  next
    case (Init_wait_set_event_mask p)
    then show ?thesis using e W [of p BT_HCI_OP_SET_EVENT_MASK] by simp
  next
    case Init_bredr
    then show ?thesis
      using e A [of BT_HCI_OP_READ_BUFFER_SIZE] by (cases "lmp_bredr_capable (dev s)") simp_all
  next
    case Init_write_le_host_supp
    then show ?thesis
      using e U Q [of q BT_HCI_OP_LE_WRITE_LE_HOST_SUPP] by (cases "free_bufs s = []") simp_all
  next
    case (Init_wait_write_le_host_supp p)
    then show ?thesis using e W [of p BT_HCI_OP_LE_WRITE_LE_HOST_SUPP] by simp
  next
    case (Init_returned r)
    then show ?thesis using e by simp
  qed
qed

lemma sync_inv_bt_init:
  assumes inv: "sync_inv m s" and ns: "init_task s = Init_not_started"
  shows "sync_accept m (observe (Task q) s (bt_init s))
       \<and> sync_inv (foldl sync_step m (observe (Task q) s (bt_init s))) (bt_init s)"
proof -
  have e: "sync_bufs s = []" and m: "m = None" using inv ns by (simp_all add: sync_inv_def)
  then have sn: "case sent_cmd (dev s) of None \<Rightarrow> True | Some c \<Rightarrow> sync c = None"
    by (auto simp: sync_bufs_alt split: option.splits if_splits)
  have "sync_bufs (bt_init s) = [] \<and> waiting_for (init_task (bt_init s)) = None"
    using bt_init_effect [of s]
  proof
    assume "drv (dev s) = None \<and> bt_init s = s\<lparr>init_task := Init_returned (Some ENODEV)\<rparr>"
    then show ?thesis using e by (simp add: sync_bufs_def)
  next
    assume a: "cmd_fiber (bt_init s) = Cmd_take_sem \<and> ncmd (dev (bt_init s)) = 1
       \<and> ncmd_sem (dev (bt_init s)) = 1 \<and> cmd_queue (dev (bt_init s)) = []
       \<and> sent_cmd (dev (bt_init s)) = sent_cmd (dev s) \<and> sems (bt_init s) = sems s
       \<and> drv_sent (bt_init s) = drv_sent s
       \<and> (init_task (bt_init s) = Init_reset \<or> (\<exists>e. init_task (bt_init s) = Init_returned e))"
    then have "sync_bufs (bt_init s) = []"
      using sn by (auto simp: sync_bufs_alt split: option.splits)
    then show ?thesis using a by auto
  qed
  then have "sync_inv None (bt_init s) \<and> observe (Task q) s (bt_init s) = []"
    using ns by (simp add: sync_inv_def observe_def)
  then show ?thesis using m by simp
qed

lemma rx_obs_sync:
  "rx_queue (dev s) = b # q \<Longrightarrow>
     sync_accept m (observe Rx_fiber s s1)
     \<and> foldl sync_step m (observe Rx_fiber s s1)
         = (case completion_opcode b of None \<Rightarrow> m | Some opc \<Rightarrow> sync_step m (Consumed opc))"
  by (auto simp: observe_def split: option.splits)

lemma sync_inv_rx:
  assumes inv: "sync_inv m s" and h: "hci_rx_fiber s = Some s1"
  shows "sync_accept m (observe Rx_fiber s s1)
       \<and> sync_inv (foldl sync_step m (observe Rx_fiber s s1)) s1"
proof -
  from hci_rx_fiber_moves [OF h] obtain b q where
    rq: "rx_queue (dev s) = b # q" and f: "fiber_frame s s1"
    and sm: "sent_moved (completion_opcode b) s s1"
    by auto
  let ?m1 = "case completion_opcode b of None \<Rightarrow> m | Some opc \<Rightarrow> sync_step m (Consumed opc)"
  have it: "init_task s1 = init_task s" and cq: "cmd_queue (dev s1) = cmd_queue (dev s)"
    using f by (simp_all add: fiber_frame_def)
  have "sync_inv ?m1 s1"
  proof (cases "sent_cmd (dev s1) = sent_cmd (dev s) \<and> sems s1 = sems s")
    case True
    then have sb: "sync_bufs s1 = sync_bufs s" using cq by (simp add: sync_bufs_def)
    show ?thesis
    proof (cases "waiting_for (init_task s)")
      case None
      then show ?thesis
        using inv sb it by (auto simp: sync_inv_def split: option.splits)
    next
      case (Some wp)
      then show ?thesis
        using inv sb it True by (cases wp) (auto simp: sync_inv_def split: option.splits)
    qed
  next
    case False
    then obtain c where
      c: "sent_cmd (dev s) = Some c" "completion_opcode b = Some (opcode c)"
         "sent_cmd (dev s1) = None"
      and se: "sems s1 = (case sync c of None \<Rightarrow> sems s | Some p \<Rightarrow> (sems s)(p := Suc (sems s p)))"
      using sm by (auto simp: sent_moved_def)
    have sb1: "sync_bufs s1 = filter (\<lambda>b. sync b \<noteq> None) (cmd_queue (dev s))"
      using c cq by (simp add: sync_bufs_alt)
    have sb: "sync_bufs s = filter (\<lambda>b. sync b \<noteq> None) (cmd_queue (dev s))
                            @ (if sync c \<noteq> None then [c] else [])"
      using c by (simp add: sync_bufs_alt)
    show ?thesis
    proof (cases "waiting_for (init_task s)")
      case None
      then have "sync_bufs s = []" "m = None" using inv by (simp_all add: sync_inv_def)
      then show ?thesis
        using None sb sb1 it c by (auto simp: sync_inv_def split: if_splits)
    next
      case (Some wp)
      obtain opc p where wp: "wp = (opc, p)" by (cases wp)
      from inv Some wp obtain d where
        m: "m = Some (opc, d)" and g: "sems s p \<noteq> 0 \<longrightarrow> d \<and> sync_bufs s = []"
        and al: "\<forall>b \<in> set (sync_bufs s). sync b = Some p \<and> opcode b = opc"
        and le: "length (sync_bufs s) \<le> 1"
        by (auto simp: sync_inv_def)
      show ?thesis
      proof (cases "sync c")
        case None
        then have "sems s1 = sems s" "sync_bufs s1 = sync_bufs s"
          using se sb sb1 by simp_all
        then show ?thesis
          using Some wp m g al le it c by (auto simp: sync_inv_def)
      next
        case (Some r)
        then have cin: "c \<in> set (sync_bufs s)" using sb by simp
        then have r: "r = p" "opcode c = opc" using al Some by auto
        have "filter (\<lambda>b. sync b \<noteq> None) (cmd_queue (dev s)) = []"
          using le sb Some by (cases "filter (\<lambda>b. sync b \<noteq> None) (cmd_queue (dev s))") simp_all
        then have "sync_bufs s1 = []" using sb1 by simp
        then show ?thesis
          using \<open>waiting_for (init_task s) = Some wp\<close> wp m it c r
          by (auto simp: sync_inv_def)
      qed
    qed
  qed
  then show ?thesis using rx_obs_sync [OF rq, of m s1] by simp
qed

lemma sync_inv_cmd:
  assumes inv: "sync_inv m s" and h: "hci_cmd_fiber s = Some s1"
  shows "sync_accept m (observe Cmd_fiber s s1)
       \<and> sync_inv (foldl sync_step m (observe Cmd_fiber s s1)) s1"
proof -
  have o: "sync_accept m (observe Cmd_fiber s s1)
           \<and> foldl sync_step m (observe Cmd_fiber s s1) = m"
    by (simp add: observe_def)
  have k: "init_task s1 = init_task s \<and> sems s1 = sems s
        \<and> set (sync_bufs s1) \<subseteq> set (sync_bufs s) \<and> length (sync_bufs s1) \<le> length (sync_bufs s)"
  proof (cases "cmd_fiber s")
    case Cmd_not_started
    then show ?thesis using h by (simp add: hci_cmd_fiber_def)
  next
    case Cmd_take_sem
    then show ?thesis
      using h by (auto simp: hci_cmd_fiber_def sync_bufs_def split: if_splits)
  next
    case Cmd_get_buf
    then show ?thesis
      using h
      by (cases "cmd_queue (dev s)")
        (auto simp: hci_cmd_fiber_def sync_bufs_alt split: option.splits if_splits)
  qed
  have "sync_inv m s1"
  proof (cases "waiting_for (init_task s)")
    case None
    then show ?thesis using inv k by (auto simp: sync_inv_def)
  next
    case (Some wp)
    obtain opc p where wp: "wp = (opc, p)" by (cases wp)
    from inv Some wp obtain d where
      m: "m = Some (opc, d)" and g: "sems s p \<noteq> 0 \<longrightarrow> d \<and> sync_bufs s = []"
      and al: "\<forall>b \<in> set (sync_bufs s). sync b = Some p \<and> opcode b = opc"
      and le: "length (sync_bufs s) \<le> 1"
      by (auto simp: sync_inv_def)
    have "sems s1 p \<noteq> 0 \<longrightarrow> d \<and> sync_bufs s1 = []" using g k by auto
    moreover have "\<forall>b \<in> set (sync_bufs s1). sync b = Some p \<and> opcode b = opc"
      using al k by blast
    moreover have "length (sync_bufs s1) \<le> 1" using le k by linarith
    ultimately show ?thesis
      using Some wp m k by (simp add: sync_inv_def)
  qed
  then show ?thesis using o by simp
qed

lemma sync_inv_step:
  assumes inv: "sync_inv m s" and st: "step a s = Some s1"
  shows "sync_accept m (observe a s s1) \<and> sync_inv (foldl sync_step m (observe a s s1)) s1"
proof (cases a)
  case (Task q)
  show ?thesis
  proof (cases "init_task s = Init_not_started")
    case True
    then have "s1 = bt_init s" using st Task by (simp add: step_def)
    then show ?thesis unfolding Task using sync_inv_bt_init [OF inv True] by simp
  next
    case False
    then have "hci_init q s = Some s1" using st Task by (simp add: step_def)
    then show ?thesis unfolding Task using sync_inv_hci_init [OF inv] by simp
  qed
next
  case Cmd_fiber
  then have "hci_cmd_fiber s = Some s1" using st by (simp add: step_def)
  then show ?thesis unfolding Cmd_fiber using sync_inv_cmd [OF inv] by simp
next
  case Rx_fiber
  then have "hci_rx_fiber s = Some s1" using st by (simp add: step_def)
  then show ?thesis unfolding Rx_fiber using sync_inv_rx [OF inv] by simp
next
  case (Recv b)
  then have s1: "s1 = bt_recv b s" using st by (simp add: step_def)
  have "sync_bufs s1 = sync_bufs s \<and> sems s1 = sems s \<and> init_task s1 = init_task s"
    unfolding s1 by (simp add: sync_bufs_def bt_recv_def)
  then have "sync_inv m s1" using inv sync_inv_cong [of s1 s m] by simp
  then show ?thesis unfolding Recv by (simp add: observe_def)
qed

lemma sync_inv_run:
  "sync_inv m s \<Longrightarrow> sync_accept m (trace acts s)"
proof (induction acts arbitrary: m s)
  case Nil
  then show ?case by simp
next
  case (Cons a acts)
  show ?case
  proof (cases "step a s")
    case None
    then show ?thesis by simp
  next
    case (Some s1)
    note st = sync_inv_step [OF Cons.prems Some]
    have "sync_accept (foldl sync_step m (observe a s s1)) (trace acts s1)"
      using Cons.IH st by blast
    then show ?thesis
      using Some st by (simp add: sync_accept_append)
  qed
qed

lemma sync_inv_boot: "sync_inv None (boot d bufs)"
  by (simp add: sync_inv_def sync_bufs_def boot_def)

lemma sync_state_call:
  "foldl sync_step None xs = Some (opc, d) \<Longrightarrow>
     \<exists>us vs. xs = us @ Sync_call opc # vs \<and> (d \<longrightarrow> Consumed opc \<in> set vs)"
proof (induction xs arbitrary: d rule: rev_induct)
  case Nil
  then show ?case by simp
next
  case (snoc x xs)
  let ?m = "foldl sync_step None xs"
  have st: "sync_step ?m x = Some (opc, d)" using snoc.prems by simp
  show ?case
  proof (cases x)
    case Handed_to_driver
    then have "?m = Some (opc, d)" using st by simp
    from snoc.IH [OF this] obtain us vs where
      "xs = us @ Sync_call opc # vs" "d \<longrightarrow> Consumed opc \<in> set vs" by blast
    then have "xs @ [x] = us @ Sync_call opc # (vs @ [x]) \<and> (d \<longrightarrow> Consumed opc \<in> set (vs @ [x]))"
      by simp
    then show ?thesis by blast
  next
    case (Consumed w)
    then obtain d0 where m: "?m = Some (opc, d0)" and d: "d = (d0 \<or> w = opc)"
      using st by (cases ?m) auto
    from snoc.IH [OF m] obtain us vs where
      "xs = us @ Sync_call opc # vs" "d0 \<longrightarrow> Consumed opc \<in> set vs" by blast
    then have "xs @ [x] = us @ Sync_call opc # (vs @ [x]) \<and> (d \<longrightarrow> Consumed opc \<in> set (vs @ [x]))"
      using d Consumed by auto
    then show ?thesis by blast
  next
    case Credit_refill
    then have "?m = Some (opc, d)" using st by simp
    from snoc.IH [OF this] obtain us vs where
      "xs = us @ Sync_call opc # vs" "d \<longrightarrow> Consumed opc \<in> set vs" by blast
    then have "xs @ [x] = us @ Sync_call opc # (vs @ [x]) \<and> (d \<longrightarrow> Consumed opc \<in> set (vs @ [x]))"
      by simp
    then show ?thesis by blast
  next
    case (Sync_call w)
    then have "w = opc" "\<not> d" using st by simp_all
    then have "xs @ [x] = xs @ Sync_call opc # [] \<and> (d \<longrightarrow> Consumed opc \<in> set [])"
      using Sync_call by simp
    then show ?thesis by blast
  next
    case (Sync_ok w)
    then show ?thesis using st by simp
  qed
qed

lemma sync_accept_returned:
  assumes "sync_accept None (xs @ Sync_ok opc # ys)"
  shows "\<exists>us vs. xs = us @ Sync_call opc # vs \<and> Consumed opc \<in> set vs"
proof -
  have "foldl sync_step None xs = Some (opc, True)"
    using assms by (simp add: sync_accept_append)
  from sync_state_call [OF this] show ?thesis by simp
qed

subsection \<open>One command per credit\<close>

lemma refill_is_zero_to_one:
  assumes "hci_rx_fiber s = Some s1" and "Credit_refill \<in> set (observe Rx_fiber s s1)"
  shows "ncmd (dev s) = 0 \<and> ncmd (dev s1) = 1"
proof -
  have "ncmd_sem (dev s1) = Suc (ncmd_sem (dev s))"
    using assms(2) by (auto simp: observe_def split: list.splits option.splits if_splits)
  then show ?thesis
    using hci_rx_fiber_moves [OF assms(1)] by (auto simp: credit_moved_def)
qed

text \<open>
  C5, as the code has it. In every run of the system from start-up, between two buffers
  handed to \<^verbatim>\<open>drv->send\<close> the receive fiber has refilled the credit: it has processed a
  Command Complete or Command Status event with \<^verbatim>\<open>ncmd > 0\<close> while \<^verbatim>\<open>dev.ncmd\<close> was 0.
  The event need not be the completion of the command that was handed over.
\<close>

theorem one_hand_over_per_credit:
  assumes "trace acts (boot d bufs) = xs @ Handed_to_driver # ys @ Handed_to_driver # zs"
  shows "Credit_refill \<in> set ys"
proof -
  have "credit_accept False (trace acts (boot d bufs))"
    using credit_inv_boot by (rule credit_inv_run)
  then show ?thesis
    unfolding assms by (rule credit_accept_two_handed)
qed

lemma nop_run_trace:
  "trace nop_run boot0 = [Handed_to_driver, Consumed 0, Credit_refill, Handed_to_driver]"
  by code_simp

theorem one_hand_over_per_credit_witness:
  "trace nop_run boot0 = [] @ Handed_to_driver # [Consumed 0, Credit_refill] @ Handed_to_driver # []
   \<and> Credit_refill \<in> set [Consumed 0, Credit_refill]"
proof -
  have t: "trace nop_run (boot drv0 (replicate 5 \<lparr>sync = None, opcode = 0, type = BT_CMD,
              len = 0, data = 0, buf = replicate 16 0\<rparr>))
           = [] @ Handed_to_driver # [Consumed 0, Credit_refill] @ Handed_to_driver # []"
    using nop_run_trace by (simp add: boot0_def)
  show ?thesis
    using one_hand_over_per_credit [OF t] nop_run_trace by simp
qed

text \<open>
  The claim as the specification words it fails. \<^verbatim>\<open>RESET\<close> and \<^verbatim>\<open>READ_LOCAL_FEATURES\<close>
  are queued; \<^verbatim>\<open>RESET\<close> is handed to the driver; the controller sends a Command Complete
  for opcode 0 with \<^verbatim>\<open>ncmd = 1\<close>. The completion is logged as unexpected and \<^verbatim>\<open>sent_cmd\<close>
  is still the \<^verbatim>\<open>RESET\<close> buffer, yet the credit is refilled and the second command is
  handed to the driver.
\<close>

theorem second_hand_over_without_completion:
  "trace nop_run boot0 = [Handed_to_driver, Consumed 0, Credit_refill, Handed_to_driver]
   \<and> map_option (\<lambda>s. map opcode (drv_sent s)) (run nop_run boot0)
       = Some [BT_HCI_OP_RESET, BT_HCI_OP_READ_LOCAL_FEATURES]
   \<and> map_option (\<lambda>s. map_option opcode (sent_cmd (dev s))) (run (butlast nop_run) boot0)
       = Some (Some BT_HCI_OP_RESET)
   \<and> map_option errs (run nop_run boot0) = Some [Unknown_opcode 0, Unexpected_completion 0]"
  by code_simp

subsection \<open>Synchronous sends\<close>

lemma sync_given_on_match:
  assumes "hci_cmd_done e s = Some s1" and "sems s1 p \<noteq> sems s p"
  shows "\<exists>c. sent_cmd (dev s) = Some c \<and> opcode c = e \<and> sync c = Some p
            \<and> sems s1 p = Suc (sems s p)"
proof -
  from hci_cmd_done_moves [OF assms(1)] have "sent_moved (Some e) s s1" by simp
  then obtain c where
    c: "sent_cmd (dev s) = Some c" "e = opcode c"
    and se: "sems s1 = (case sync c of None \<Rightarrow> sems s | Some q \<Rightarrow> (sems s)(q := Suc (sems s q)))"
    using assms(2) by (auto simp: sent_moved_def)
  show ?thesis
  proof (cases "sync c")
    case None
    then show ?thesis using se assms(2) by simp
  next
    case (Some q)
    then have "q = p" using se assms(2) by (auto split: if_splits)
    then show ?thesis using c se Some by simp
  qed
qed

text \<open>
  C6. In every run of the system from start-up, a \<^verbatim>\<open>bt_hci_cmd_send_sync\<close> for an opcode
  returns 0 only after the call has queued its buffer and, after that, the receive fiber
  has consumed a Command Complete or Command Status event for that opcode. And
  \<^verbatim>\<open>hci_cmd_done\<close> gives a \<^verbatim>\<open>sync\<close> semaphore only when the opcode of the event is the
  opcode of the outstanding command whose semaphore it is, and then once.
\<close>

theorem sync_send_returns_after_event:
  assumes "trace acts (boot d bufs) = xs @ Sync_ok opc # ys"
  shows "(\<exists>us vs. xs = us @ Sync_call opc # vs \<and> Consumed opc \<in> set vs)
       \<and> (hci_cmd_done e s = Some s1 \<and> sems s1 p \<noteq> sems s p \<longrightarrow>
            (\<exists>c. sent_cmd (dev s) = Some c \<and> opcode c = e \<and> sync c = Some p
                 \<and> sems s1 p = Suc (sems s p)))"
proof
  have "sync_accept None (trace acts (boot d bufs))"
    using sync_inv_boot by (rule sync_inv_run)
  then show "\<exists>us vs. xs = us @ Sync_call opc # vs \<and> Consumed opc \<in> set vs"
    unfolding assms by (rule sync_accept_returned)
next
  show "hci_cmd_done e s = Some s1 \<and> sems s1 p \<noteq> sems s p \<longrightarrow>
            (\<exists>c. sent_cmd (dev s) = Some c \<and> opcode c = e \<and> sync c = Some p
                 \<and> sems s1 p = Suc (sems s p))"
    using sync_given_on_match by blast
qed

lemma bringup_run_trace:
  "trace bringup_run boot0 =
     [Sync_call BT_HCI_OP_READ_BD_ADDR,
      Handed_to_driver, Consumed BT_HCI_OP_RESET, Credit_refill,
      Handed_to_driver, Consumed BT_HCI_OP_READ_LOCAL_FEATURES, Credit_refill,
      Handed_to_driver, Consumed BT_HCI_OP_READ_LOCAL_VERSION_INFO, Credit_refill,
      Handed_to_driver, Consumed BT_HCI_OP_READ_BD_ADDR, Credit_refill,
      Sync_ok BT_HCI_OP_READ_BD_ADDR]"
  by code_simp

text \<open>The bring-up against a controller with \<^verbatim>\<open>features[4] = 0\<close>: after the barrier the
  task returns \<^verbatim>\<open>-ENODEV\<close>; the address and the version have been recorded.\<close>

lemma bringup_non_le_controller:
  "map_option (\<lambda>s. (init_task s, errs s, features (dev s) ! 4, bdaddr (dev s),
                    hci_version (dev s), hci_revision (dev s), manufacturer (dev s)))
     (run bringup_run boot0)
   = Some (Init_returned (Some ENODEV), [Non_LE_capable_controller], 0,
           [0x66, 0x55, 0x44, 0x33, 0x22, 0x11], 9, 0x1234, 0x000f)"
  by code_simp

text \<open>The bring-up against an LE-only controller runs to the end: the task returns 0, the
  LE buffer size is recorded, seven commands have gone to the driver in the order of their
  creation, and the only diagnostic is the one the handler prints for the completion of
  \<^verbatim>\<open>SET_EVENT_MASK\<close>, for which its switch has no case.\<close>

lemma bringup_le_only_controller:
  "map_option (\<lambda>s. (init_task s, errs s, le_mtu (dev s), le_pkts (dev s),
                    map opcode (drv_sent s), ncmd (dev s), ncmd_sem (dev s)))
     (run le_bringup_run boot0)
   = Some (Init_returned None, [Unknown_opcode BT_HCI_OP_SET_EVENT_MASK], 27, 4,
           [BT_HCI_OP_RESET, BT_HCI_OP_READ_LOCAL_FEATURES, BT_HCI_OP_READ_LOCAL_VERSION_INFO,
            BT_HCI_OP_READ_BD_ADDR, BT_HCI_OP_LE_READ_LOCAL_FEATURES,
            BT_HCI_OP_LE_READ_BUFFER_SIZE, BT_HCI_OP_SET_EVENT_MASK], 1, 1)"
  by code_simp

lemma sent_reset_sync_runs:
  "hci_cmd_done BT_HCI_OP_RESET
     (busy_state\<lparr>dev := (dev busy_state)\<lparr>sent_cmd := Some (sent_reset\<lparr>sync := Some 3\<rparr>)\<rparr>\<rparr>)
   = Some (bt_buf_put (sent_reset\<lparr>sync := Some 3\<rparr>)
            (nano_sem_give 3 (busy_state\<lparr>dev := (dev busy_state)\<lparr>sent_cmd := None\<rparr>\<rparr>)))"
  by (simp add: hci_cmd_done_def sent_reset_def Let_def)

theorem sync_send_returns_after_event_witness:
  "trace bringup_run boot0 =
     [Sync_call BT_HCI_OP_READ_BD_ADDR,
      Handed_to_driver, Consumed BT_HCI_OP_RESET, Credit_refill,
      Handed_to_driver, Consumed BT_HCI_OP_READ_LOCAL_FEATURES, Credit_refill,
      Handed_to_driver, Consumed BT_HCI_OP_READ_LOCAL_VERSION_INFO, Credit_refill,
      Handed_to_driver, Consumed BT_HCI_OP_READ_BD_ADDR, Credit_refill]
     @ Sync_ok BT_HCI_OP_READ_BD_ADDR # []
   \<and> (\<exists>us vs.
        [Sync_call BT_HCI_OP_READ_BD_ADDR,
         Handed_to_driver, Consumed BT_HCI_OP_RESET, Credit_refill,
         Handed_to_driver, Consumed BT_HCI_OP_READ_LOCAL_FEATURES, Credit_refill,
         Handed_to_driver, Consumed BT_HCI_OP_READ_LOCAL_VERSION_INFO, Credit_refill,
         Handed_to_driver, Consumed BT_HCI_OP_READ_BD_ADDR, Credit_refill]
        = us @ Sync_call BT_HCI_OP_READ_BD_ADDR # vs
        \<and> Consumed BT_HCI_OP_READ_BD_ADDR \<in> set vs)
   \<and> (\<exists>(s :: 8 sys) s1 c. hci_cmd_done BT_HCI_OP_RESET s = Some s1 \<and> sems s1 3 \<noteq> sems s 3
        \<and> sent_cmd (dev s) = Some c \<and> opcode c = BT_HCI_OP_RESET \<and> sync c = Some 3
        \<and> sems s1 3 = Suc (sems s 3))"
proof -
  let ?s = "busy_state\<lparr>dev := (dev busy_state)\<lparr>sent_cmd := Some (sent_reset\<lparr>sync := Some 3\<rparr>)\<rparr>\<rparr>"
  let ?s1 = "bt_buf_put (sent_reset\<lparr>sync := Some 3\<rparr>)
            (nano_sem_give 3 (busy_state\<lparr>dev := (dev busy_state)\<lparr>sent_cmd := None\<rparr>\<rparr>))"
  have t: "trace bringup_run (boot drv0 (replicate 5 \<lparr>sync = None, opcode = 0, type = BT_CMD,
              len = 0, data = 0, buf = replicate 16 0\<rparr>))
     = [Sync_call BT_HCI_OP_READ_BD_ADDR,
      Handed_to_driver, Consumed BT_HCI_OP_RESET, Credit_refill,
      Handed_to_driver, Consumed BT_HCI_OP_READ_LOCAL_FEATURES, Credit_refill,
      Handed_to_driver, Consumed BT_HCI_OP_READ_LOCAL_VERSION_INFO, Credit_refill,
      Handed_to_driver, Consumed BT_HCI_OP_READ_BD_ADDR, Credit_refill]
     @ Sync_ok BT_HCI_OP_READ_BD_ADDR # []"
    using bringup_run_trace by (simp add: boot0_def)
  have n: "sems ?s1 3 \<noteq> sems ?s 3"
    by (simp add: bt_buf_put_def nano_sem_give_def)
  note th = sync_send_returns_after_event [OF t, of BT_HCI_OP_RESET ?s ?s1 3]
  have a: "\<exists>us vs.
        [Sync_call BT_HCI_OP_READ_BD_ADDR,
         Handed_to_driver, Consumed BT_HCI_OP_RESET, Credit_refill,
         Handed_to_driver, Consumed BT_HCI_OP_READ_LOCAL_FEATURES, Credit_refill,
         Handed_to_driver, Consumed BT_HCI_OP_READ_LOCAL_VERSION_INFO, Credit_refill,
         Handed_to_driver, Consumed BT_HCI_OP_READ_BD_ADDR, Credit_refill]
        = us @ Sync_call BT_HCI_OP_READ_BD_ADDR # vs
        \<and> Consumed BT_HCI_OP_READ_BD_ADDR \<in> set vs"
    using th by blast
  have b: "\<exists>c. sent_cmd (dev ?s) = Some c \<and> opcode c = BT_HCI_OP_RESET \<and> sync c = Some 3
        \<and> sems ?s1 3 = Suc (sems ?s 3)"
    using th sent_reset_sync_runs n by simp
  from b obtain c0 where
    c0: "sent_cmd (dev ?s) = Some c0 \<and> opcode c0 = BT_HCI_OP_RESET \<and> sync c0 = Some 3
        \<and> sems ?s1 3 = Suc (sems ?s 3)" ..
  have "hci_cmd_done BT_HCI_OP_RESET ?s = Some ?s1 \<and> sems ?s1 3 \<noteq> sems ?s 3
        \<and> sent_cmd (dev ?s) = Some c0 \<and> opcode c0 = BT_HCI_OP_RESET \<and> sync c0 = Some 3
        \<and> sems ?s1 3 = Suc (sems ?s 3)"
    using c0 n sent_reset_sync_runs by (intro conjI) (rule sent_reset_sync_runs n | blast)+
  then have c: "\<exists>(s :: 8 sys) s1 c. hci_cmd_done BT_HCI_OP_RESET s = Some s1 \<and> sems s1 3 \<noteq> sems s 3
        \<and> sent_cmd (dev s) = Some c \<and> opcode c = BT_HCI_OP_RESET \<and> sync c = Some 3
        \<and> sems s1 3 = Suc (sems s 3)"
    by - (intro exI, assumption)
  show ?thesis
    using bringup_run_trace a c by simp
qed

subsection \<open>Bring-up: what a failed send leads to\<close>

text \<open>Only the task moves its own program counter.\<close>

lemma other_steps_keep_task:
  "hci_cmd_fiber s = Some s1 \<Longrightarrow> init_task s1 = init_task s"
  "hci_rx_fiber s = Some s1 \<Longrightarrow> init_task s1 = init_task s"
  "init_task (bt_recv b s) = init_task s"
proof -
  show "hci_cmd_fiber s = Some s1 \<Longrightarrow> init_task s1 = init_task s"
    by (auto simp: hci_cmd_fiber_def split: cmd_pc.splits if_splits list.splits)
  show "hci_rx_fiber s = Some s1 \<Longrightarrow> init_task s1 = init_task s"
    using hci_rx_fiber_moves [of s s1] by (auto simp: fiber_frame_def)
  show "init_task (bt_recv b s) = init_task s"
    by (simp add: bt_recv_def)
qed

lemma hci_init_enobufs:
  assumes "hci_init p s = Some s1"
  shows "init_task s1 = Init_returned (Some ENOBUFS)
            \<longleftrightarrow> (init_task s = Init_set_event_mask \<or> init_task s = Init_write_le_host_supp)
                \<and> free_bufs s = []"
  using hci_init_effect [OF assms]
  by (cases "init_task s") (auto split: if_splits)

lemma step_enobufs:
  assumes st: "step a s = Some s1" and ns: "init_task s \<noteq> Init_not_started"
  shows "init_task s1 \<noteq> Init_not_started
       \<and> (init_task s1 = Init_returned (Some ENOBUFS) \<longrightarrow>
            init_task s = Init_returned (Some ENOBUFS)
            \<or> ((\<exists>q. a = Task q)
                \<and> (init_task s = Init_set_event_mask \<or> init_task s = Init_write_le_host_supp)
                \<and> free_bufs s = []))"
proof (cases a)
  case (Task q)
  then have h: "hci_init q s = Some s1" using st ns by (simp add: step_def)
  show ?thesis
    using hci_init_pc [OF h] hci_init_enobufs [OF h] Task by auto
next
  case Cmd_fiber
  then show ?thesis using st ns other_steps_keep_task(1) [of s s1] by (simp add: step_def)
next
  case Rx_fiber
  then show ?thesis using st ns other_steps_keep_task(2) [of s s1] by (simp add: step_def)
next
  case (Recv b)
  then show ?thesis using st ns other_steps_keep_task(3) [of b s] by (auto simp: step_def)
qed

text \<open>In a run that ends with \<^verbatim>\<open>hci_init\<close> having returned \<^verbatim>\<open>-ENOBUFS\<close>, some step of the task
  stood at one of the two \<^verbatim>\<open>bt_hci_cmd_create\<close> calls with the pool empty.\<close>

lemma run_enobufs:
  assumes "run as s = Some s1" and "init_task s \<noteq> Init_not_started"
    and "init_task s \<noteq> Init_returned (Some ENOBUFS)"
    and "init_task s1 = Init_returned (Some ENOBUFS)"
  shows "\<exists>as1 q as2 u. as = as1 @ Task q # as2 \<and> run as1 s = Some u
       \<and> (init_task u = Init_set_event_mask \<or> init_task u = Init_write_le_host_supp)
       \<and> free_bufs u = []"
  using assms
proof (induction as arbitrary: s)
  case Nil
  then show ?case by simp
next
  case (Cons a as)
  from Cons.prems(1) obtain t where st: "step a s = Some t" and r: "run as t = Some s1"
    by (auto split: option.splits)
  note e = step_enobufs [OF st Cons.prems(2)]
  show ?case
  proof (cases "init_task t = Init_returned (Some ENOBUFS)")
    case True
    with e Cons.prems(3) obtain q where
      "a = Task q" "init_task s = Init_set_event_mask \<or> init_task s = Init_write_le_host_supp"
      "free_bufs s = []" by auto
    then have "a # as = [] @ Task q # as \<and> run [] s = Some s
       \<and> (init_task s = Init_set_event_mask \<or> init_task s = Init_write_le_host_supp)
       \<and> free_bufs s = []" by simp
    then show ?thesis by blast
  next
    case False
    from Cons.IH [OF r _ False Cons.prems(4)] e obtain as1 q as2 u where
      d: "as = as1 @ Task q # as2" "run as1 t = Some u"
         "init_task u = Init_set_event_mask \<or> init_task u = Init_write_le_host_supp"
         "free_bufs u = []" by auto
    have "a # as = (a # as1) @ Task q # as2 \<and> run (a # as1) s = Some u"
      using d(1,2) st by simp
    then show ?thesis using d(3,4) by blast
  qed
qed

text \<open>
  C10, as the code has it. \<^verbatim>\<open>hci_init\<close> throws away what its sends return. A step of
  \<^verbatim>\<open>hci_init\<close> returns \<^verbatim>\<open>-ENOBUFS\<close> exactly when it is \<^verbatim>\<open>bt_hci_cmd_create\<close> for
  \<^verbatim>\<open>SET_EVENT_MASK\<close> or for \<^verbatim>\<open>LE_WRITE_LE_HOST_SUPP\<close> and the pool is empty. When one of the
  sends of steps 1 to 4, 6 and 7 finds the pool empty, \<^verbatim>\<open>hci_init\<close> does not return there:
  two lines are appended to the log and the task stands at the next statement, with
  nothing else changed (after the failed synchronous \<^verbatim>\<open>READ_BD_ADDR\<close> that statement is the
  capability check: the task does not wait). The two later synchronous sends are given
  their buffer and always reach their wait. And over the runs of the whole system, from
  any state in which \<^verbatim>\<open>hci_init\<close> has been entered and has not returned \<^verbatim>\<open>-ENOBUFS\<close>: if
  it has returned \<^verbatim>\<open>-ENOBUFS\<close> at the end of the run, then at some step of the run the task
  stood at one of those two \<^verbatim>\<open>bt_hci_cmd_create\<close> calls with the pool empty. What the
  commands that were not sent do to the rest of the bring-up is not part of this.
\<close>

theorem enobufs_only_from_create:
  assumes "hci_init p s = Some s1"
    and "run as t = Some t1" and "init_task t \<noteq> Init_not_started"
    and "init_task t \<noteq> Init_returned (Some ENOBUFS)"
  shows "(init_task s1 = Init_returned (Some ENOBUFS)
            \<longleftrightarrow> (init_task s = Init_set_event_mask \<or> init_task s = Init_write_le_host_supp)
                \<and> free_bufs s = [])
       \<and> (free_bufs s = [] \<and> after_failed_send (init_task s) = Some pc
            \<longrightarrow> s1 = s\<lparr>errs := errs s @ [Failed_to_get_free_buffer, Cannot_get_free_buffer],
                        init_task := pc\<rparr>)
       \<and> (\<exists>s2. bt_hci_cmd_send_sync p opc (Some b) s = Some (Sync_waiting, s2))
       \<and> (init_task t1 = Init_returned (Some ENOBUFS)
            \<longrightarrow> (\<exists>as1 q as2 u. as = as1 @ Task q # as2 \<and> run as1 t = Some u
                  \<and> (init_task u = Init_set_event_mask \<or> init_task u = Init_write_le_host_supp)
                  \<and> free_bufs u = []))"
proof (intro conjI impI)
  show "init_task s1 = Init_returned (Some ENOBUFS)
            \<longleftrightarrow> (init_task s = Init_set_event_mask \<or> init_task s = Init_write_le_host_supp)
                \<and> free_bufs s = []"
    using assms(1) by (rule hci_init_enobufs)
next
  assume "free_bufs s = [] \<and> after_failed_send (init_task s) = Some pc"
  then show "s1 = s\<lparr>errs := errs s @ [Failed_to_get_free_buffer, Cannot_get_free_buffer],
                        init_task := pc\<rparr>"
    using failed_send_step [OF assms(1)] by (simp add: BT_ERR_def)
next
  show "\<exists>s2. bt_hci_cmd_send_sync p opc (Some b) s = Some (Sync_waiting, s2)"
    by (simp add: bt_hci_cmd_send_sync_given)
next
  assume "init_task t1 = Init_returned (Some ENOBUFS)"
  then show "\<exists>as1 q as2 u. as = as1 @ Task q # as2 \<and> run as1 t = Some u
                  \<and> (init_task u = Init_set_event_mask \<or> init_task u = Init_write_le_host_supp)
                  \<and> free_bufs u = []"
    using run_enobufs [OF assms(2,3,4)] by simp
qed

lemma starved_le_run:
  "map_option init_task (run (replicate 8 (Task 0)) starved_le_state)
     = Some (Init_returned (Some ENOBUFS))"
  by code_simp

theorem enobufs_only_from_create_witness:
  "free_bufs (empty_pool_state Init_reset) = []
   \<and> hci_init 0 (empty_pool_state Init_reset)
       = Some ((empty_pool_state Init_reset)
                 \<lparr>errs := [Failed_to_get_free_buffer, Cannot_get_free_buffer],
                  init_task := Init_read_local_features\<rparr>)
   \<and> hci_init 0 (empty_pool_state Init_read_bd_addr)
       = Some ((empty_pool_state Init_read_bd_addr)
                 \<lparr>errs := [Failed_to_get_free_buffer, Cannot_get_free_buffer],
                  init_task := Init_le_check\<rparr>)
   \<and> (\<exists>s1. hci_init 0 (empty_pool_state Init_set_event_mask) = Some s1
         \<and> init_task s1 = Init_returned (Some ENOBUFS))
   \<and> init_task starved_le_state = Init_reset
   \<and> (\<exists>t1. run (replicate 8 (Task 0)) starved_le_state = Some t1
         \<and> init_task t1 = Init_returned (Some ENOBUFS))
   \<and> (\<exists>as1 q as2 u. replicate 8 (Task 0) = as1 @ Task q # as2
         \<and> run as1 starved_le_state = Some u
         \<and> (init_task u = Init_set_event_mask \<or> init_task u = Init_write_le_host_supp)
         \<and> free_bufs u = [])"
proof -
  obtain s1 s2 s3 where
    r: "hci_init 0 (empty_pool_state Init_reset) = Some s1"
       "hci_init 0 (empty_pool_state Init_read_bd_addr) = Some s2"
       "hci_init 0 (empty_pool_state Init_set_event_mask) = Some s3"
    using empty_pool_runs by blast
  from starved_le_run obtain t1 where
    t: "run (replicate 8 (Task 0)) starved_le_state = Some t1"
       "init_task t1 = Init_returned (Some ENOBUFS)"
    by auto
  have i: "init_task starved_le_state = Init_reset"
    by (simp add: starved_le_state_def empty_pool_state_def)
  then have n: "init_task starved_le_state \<noteq> Init_not_started"
    "init_task starved_le_state \<noteq> Init_returned (Some ENOBUFS)" by simp_all
  have f: "\<And>pc. free_bufs (empty_pool_state pc) = []" "\<And>pc. init_task (empty_pool_state pc) = pc"
    "\<And>pc. errs (empty_pool_state pc) = []"
    by (simp_all add: empty_pool_state_def boot_def)
  have "s1 = (empty_pool_state Init_reset)
                 \<lparr>errs := [Failed_to_get_free_buffer, Cannot_get_free_buffer],
                  init_task := Init_read_local_features\<rparr>"
    using enobufs_only_from_create [OF r(1) t(1) n, of Init_read_local_features] f by simp
  moreover have "s2 = (empty_pool_state Init_read_bd_addr)
                 \<lparr>errs := [Failed_to_get_free_buffer, Cannot_get_free_buffer],
                  init_task := Init_le_check\<rparr>"
    using enobufs_only_from_create [OF r(2) t(1) n, of Init_le_check] f by simp
  moreover have "init_task s3 = Init_returned (Some ENOBUFS)"
    using enobufs_only_from_create [OF r(3) t(1) n] f by simp
  moreover have "\<exists>as1 q as2 u. replicate 8 (Task 0) = as1 @ Task q # as2
         \<and> run as1 starved_le_state = Some u
         \<and> (init_task u = Init_set_event_mask \<or> init_task u = Init_write_le_host_supp)
         \<and> free_bufs u = []"
    using enobufs_only_from_create [OF r(1) t(1) n] t(2) by blast
  ultimately show ?thesis using r t i f by simp
qed

text \<open>
  The claim as the specification words it fails: a send that finds the pool empty does
  change what \<^verbatim>\<open>hci_init\<close> returns, and it ends the bring-up. With all five buffers free and
  an LE-only controller, \<^verbatim>\<open>hci_init\<close> returns 0 (\<open>le_bringup_run\<close>). With one buffer free the
  send of \<^verbatim>\<open>READ_LOCAL_FEATURES\<close> fails, the command never reaches the controller, the
  controller answers each of the three commands it is handed, and after the barrier
  \<^verbatim>\<open>hci_init\<close> returns \<^verbatim>\<open>-ENODEV\<close>. With three buffers free the synchronous send of
  \<^verbatim>\<open>READ_BD_ADDR\<close> fails, the task does not wait, and \<^verbatim>\<open>hci_init\<close> returns \<^verbatim>\<open>-ENODEV\<close> before
  any command has reached the driver.
\<close>

theorem failed_send_changes_return_value:
  "map_option init_task (run le_bringup_run boot0) = Some (Init_returned None)
   \<and> init_task (short_pool 1) = Init_reset \<and> length (free_bufs (short_pool 1)) = 1
   \<and> map_option init_task (run starved_run (short_pool 1)) = Some (Init_returned (Some ENODEV))
   \<and> map_option errs (run starved_run (short_pool 1))
       = Some [Failed_to_get_free_buffer, Cannot_get_free_buffer, Non_LE_capable_controller]
   \<and> map_option (map opcode \<circ> drv_sent) (run starved_run (short_pool 1))
       = Some [BT_HCI_OP_RESET, BT_HCI_OP_READ_LOCAL_VERSION_INFO, BT_HCI_OP_READ_BD_ADDR]
   \<and> init_task (short_pool 3) = Init_reset \<and> length (free_bufs (short_pool 3)) = 3
   \<and> map_option init_task (run (replicate 5 (Task 0)) (short_pool 3))
       = Some (Init_returned (Some ENODEV))
   \<and> map_option errs (run (replicate 5 (Task 0)) (short_pool 3))
       = Some [Failed_to_get_free_buffer, Cannot_get_free_buffer, Non_LE_capable_controller]
   \<and> map_option drv_sent (run (replicate 5 (Task 0)) (short_pool 3)) = Some []"
  by code_simp

end
